theory Spec2Isabelle
  imports Complex_Main "HOL-Library.Product_Lexorder" "HOL-Library.Multiset"
begin

section \<open>Values of the Python program\<close>

text \<open>
  A Python \<open>str\<close> is a sequence of Unicode code points, so a string is a list of
  natural numbers here: \<open>len\<close>, \<open>strip\<close>, \<open>in\<close> and the regular expression of
  the source all count code points.
\<close>

type_synonym pystr = "nat list"

datatype pyerror =
  KeyError | ValueError | IndexError | OverflowError | RequestException | CurrentDateUnavailable

text \<open>
  A Python \<open>float\<close> is a binary64 number: a finite one is given by the rational that it
  is, and the two infinities are values of their own. The computations of the source give
  no NaN from finite operands, and the sign of a zero is not kept.
\<close>

datatype pyfloat = Fin rat | PInf | NInf

text \<open>The two string literals of the comparison, as code points: U+65B0 U+589E ("new")
  and U+6E05 U+5009 ("liquidated").\<close>

definition NEW :: pystr where
  "NEW = [26032, 22686]"

definition LIQUIDATED :: pystr where
  "LIQUIDATED = [28165, 20489]"

text \<open>
  The value of a cell of a data frame or worksheet, as far as the source tells them apart:
  \<open>None\<close>, a \<open>str\<close>, an \<open>int\<close> or a \<open>float\<close>.
\<close>

datatype pyval = VNone | VStr pystr | VInt int | VFloat rat

text \<open>
  What the percentage column of the comparison frame holds: a \<open>str\<close> or a \<open>float\<close>,
  which may be infinite.
\<close>

datatype shown = Label pystr | Number pyfloat

text \<open>
  One row of a holdings data frame: the columns for the stock code, the stock name, the
  number of shares and the weight.
\<close>

record holding =
  stock_code :: pystr
  stock_name :: pystr
  shares :: int
  weight :: rat

section \<open>Floating point\<close>

text \<open>The nearest integer, a tie going to the even one.\<close>

definition round_half_even :: "rat \<Rightarrow> int" where
  "round_half_even y =
     (let f = \<lfloor>y\<rfloor>; d = y - of_int f
      in if d < 1 / 2 then f
         else if 1 / 2 < d then f + 1
         else if even f then f else f + 1)"

text \<open>
  The binary exponent \<open>e\<close> of a positive rational \<open>x\<close>, with
  \<open>2 ^ e \<le> x < 2 ^ (e + 1)\<close>: by halving from 1 upwards, by doubling below 1.
\<close>

function exp_up :: "rat \<Rightarrow> int" where
  "exp_up x = (if 2 \<le> x then exp_up (x / 2) + 1 else 0)"
  by pat_completeness auto
termination
proof (relation "measure (\<lambda>x. nat \<lceil>x\<rceil>)")
  show "wf (measure (\<lambda>x::rat. nat \<lceil>x\<rceil>))" by simp
next
  fix x :: rat assume "2 \<le> x"
  then have "x / 2 \<le> x - 1" by simp
  then have "\<lceil>x / 2\<rceil> \<le> \<lceil>x - 1\<rceil>" by (rule ceiling_mono)
  moreover from \<open>2 \<le> x\<close> have "0 < \<lceil>x\<rceil>" by simp
  ultimately show "(x / 2, x) \<in> measure (\<lambda>x. nat \<lceil>x\<rceil>)" by simp
qed

function exp_down :: "rat \<Rightarrow> int" where
  "exp_down x = (if 0 < x \<and> x < 1 then exp_down (x * 2) - 1 else 0)"
  by pat_completeness auto
termination
proof (relation "measure (\<lambda>x. nat \<lceil>1 / x\<rceil>)")
  show "wf (measure (\<lambda>x::rat. nat \<lceil>1 / x\<rceil>))" by simp
next
  fix x :: rat assume a: "0 < x \<and> x < 1"
  define y where "y = 1 / x"
  from a have y: "1 < y" by (simp add: y_def)
  then have two: "2 \<le> \<lceil>y\<rceil>" by linarith
  have half: "1 / (x * 2) = y / 2" by (simp add: y_def)
  have "\<lceil>y / 2\<rceil> < \<lceil>y\<rceil>"
  proof (cases "y \<le> 2")
    case True
    then have "y / 2 \<le> 1" by simp
    then have "\<lceil>y / 2\<rceil> \<le> 1" by (simp only: ceiling_le_one)
    with two show ?thesis by linarith
  next
    case False
    then have "y / 2 \<le> y - 1" by simp
    then have "\<lceil>y / 2\<rceil> \<le> \<lceil>y - 1\<rceil>" by (rule ceiling_mono)
    then show ?thesis by simp
  qed
  then have "\<lceil>1 / (x * 2)\<rceil> < \<lceil>1 / x\<rceil>"
    by (simp only: half) (simp only: y_def)
  with a show "(x * 2, x) \<in> measure (\<lambda>x. nat \<lceil>1 / x\<rceil>)"
    by simp
qed

declare exp_up.simps [simp del]

declare exp_down.simps [simp del]

definition binary_exponent :: "rat \<Rightarrow> int" where
  "binary_exponent x = (if 1 \<le> x then exp_up x else exp_down x)"

text \<open>
  The binary64 number nearest to a rational, a tie going to the even significand: the
  numbers near \<open>x\<close> are the multiples of \<open>2 ^ s\<close>, where \<open>s\<close> is 52 below the exponent
  of \<open>x\<close> and at least -1074. From \<open>2 ^ 1024 - 2 ^ 970\<close> on, half a step above the
  largest finite number, the result is an infinity.
\<close>

definition to_double :: "rat \<Rightarrow> pyfloat" where
  "to_double x =
     (if x = 0 then Fin 0
      else if 2 ^ 1024 - 2 ^ 970 \<le> \<bar>x\<bar> then (if 0 < x then PInf else NInf)
      else (let s = max (binary_exponent \<bar>x\<bar> - 52) (- 1074)
            in Fin (of_int (round_half_even (x / 2 powi s)) * 2 powi s)))"

text \<open>
  \<open>a / b\<close> for two \<open>int\<close> and \<open>b\<close> not 0: the quotient, correctly rounded, and
  \<open>OverflowError\<close> when it is too large for a float.
\<close>

definition int_true_div :: "int \<Rightarrow> int \<Rightarrow> pyerror + rat" where
  "int_true_div a b =
     (case to_double (of_int a / of_int b) of
        Fin q \<Rightarrow> Inr q
      | PInf \<Rightarrow> Inl OverflowError
      | NInf \<Rightarrow> Inl OverflowError)"

text \<open>The product and the difference of two finite floats; a product may overflow.\<close>

definition float_mul :: "rat \<Rightarrow> rat \<Rightarrow> pyfloat" where
  "float_mul x y = to_double (x * y)"

definition float_sub :: "rat \<Rightarrow> rat \<Rightarrow> pyfloat" where
  "float_sub x y = to_double (x - y)"

text \<open>
  \<open>round(x, 2)\<close> on a float: the value of \<open>x\<close> is rounded to the nearest multiple of
  0.01, a tie going to the even hundredth, and the result is the float nearest to that
  decimal. An infinity rounds to itself.
\<close>

definition round2 :: "rat \<Rightarrow> rat" where
  "round2 x = of_int (round_half_even (x * 100)) / 100"

fun py_round2 :: "pyfloat \<Rightarrow> pyfloat" where
  "py_round2 (Fin x) = to_double (round2 x)"
| "py_round2 PInf = PInf"
| "py_round2 NInf = NInf"

section \<open>Strings\<close>

text \<open>
  \<open>str.strip()\<close> removes the characters for which \<open>str.isspace\<close> holds from both
  ends.
\<close>

definition is_space :: "nat \<Rightarrow> bool" where
  "is_space c \<longleftrightarrow>
     (9 \<le> c \<and> c \<le> 13) \<or> (28 \<le> c \<and> c \<le> 32) \<or> c = 133 \<or> c = 160 \<or> c = 5760 \<or>
     (8192 \<le> c \<and> c \<le> 8202) \<or> c = 8232 \<or> c = 8233 \<or> c = 8239 \<or> c = 8287 \<or> c = 12288"

definition strip :: "pystr \<Rightarrow> pystr" where
  "strip s = rev (dropWhile is_space (rev (dropWhile is_space s)))"

text \<open>\<open>sub in s\<close>: \<open>sub\<close> occurs in \<open>s\<close> as a contiguous run.\<close>

fun starts_with :: "pystr \<Rightarrow> pystr \<Rightarrow> bool" where
  "starts_with s [] = True"
| "starts_with [] (p # ps) = False"
| "starts_with (c # cs) (p # ps) = (c = p \<and> starts_with cs ps)"

fun contains :: "pystr \<Rightarrow> pystr \<Rightarrow> bool" where
  "contains [] sub = (sub = [])"
| "contains (c # cs) sub = (starts_with (c # cs) sub \<or> contains cs sub)"

text \<open>
  The decimal digits of Unicode 14.0 (category Nd), in runs of the digits 0 to 9: the
  characters that \<open>\d\<close> matches in a pattern on \<open>str\<close> and that \<open>int\<close> accepts.
\<close>

definition Nd_ranges :: "(nat \<times> nat) list" where
  "Nd_ranges =
    [(48, 57), (1632, 1641), (1776, 1785), (1984, 1993), (2406, 2415), (2534, 2543),
     (2662, 2671), (2790, 2799), (2918, 2927), (3046, 3055), (3174, 3183), (3302, 3311),
     (3430, 3439), (3558, 3567), (3664, 3673), (3792, 3801), (3872, 3881), (4160, 4169),
     (4240, 4249), (6112, 6121), (6160, 6169), (6470, 6479), (6608, 6617), (6784, 6793),
     (6800, 6809), (6992, 7001), (7088, 7097), (7232, 7241), (7248, 7257), (42528, 42537),
     (43216, 43225), (43264, 43273), (43472, 43481), (43504, 43513), (43600, 43609),
     (44016, 44025), (65296, 65305), (66720, 66729), (68912, 68921), (69734, 69743),
     (69872, 69881), (69942, 69951), (70096, 70105), (70384, 70393), (70736, 70745),
     (70864, 70873), (71248, 71257), (71360, 71369), (71472, 71481), (71904, 71913),
     (72016, 72025), (72784, 72793), (73040, 73049), (73120, 73129), (92768, 92777),
     (92864, 92873), (93008, 93017), (120782, 120831), (123200, 123209), (123632, 123641),
     (125264, 125273), (130032, 130041)]"

definition in_ranges :: "(nat \<times> nat) list \<Rightarrow> nat \<Rightarrow> bool" where
  "in_ranges rs c = list_ex (\<lambda>(lo, hi). lo \<le> c \<and> c \<le> hi) rs"

definition is_decimal :: "nat \<Rightarrow> bool" where
  "is_decimal c = in_ranges Nd_ranges c"

definition digit_value :: "nat \<Rightarrow> int" where
  "digit_value c =
     (case find (\<lambda>(lo, hi). lo \<le> c \<and> c \<le> hi) Nd_ranges of
        None \<Rightarrow> 0
      | Some (lo, hi) \<Rightarrow> int ((c - lo) mod 10))"

text \<open>
  The other characters for which \<open>str.isdigit\<close> holds (superscripts, circled digits and
  the like): \<open>int\<close> rejects them.
\<close>

definition other_digit_ranges :: "(nat \<times> nat) list" where
  "other_digit_ranges =
    [(178, 179), (185, 185), (4969, 4977), (6618, 6618), (8304, 8304), (8308, 8313),
     (8320, 8329), (9312, 9320), (9332, 9340), (9352, 9360), (9450, 9450), (9461, 9469),
     (9471, 9471), (10102, 10110), (10112, 10120), (10122, 10130), (68160, 68163),
     (69216, 69224), (69714, 69722), (127232, 127242)]"

definition isdigit :: "pystr \<Rightarrow> bool" where
  "isdigit s \<longleftrightarrow> s \<noteq> [] \<and> list_all (\<lambda>c. is_decimal c \<or> in_ranges other_digit_ranges c) s"

text \<open>
  \<open>int(s)\<close> for a string on which \<open>isdigit\<close> holds: \<open>ValueError\<close> for a character
  that is not a decimal digit and for more than 4300 digits.
\<close>

definition py_int :: "pystr \<Rightarrow> pyerror + int" where
  "py_int s =
     (if s \<noteq> [] \<and> list_all is_decimal s \<and> length s \<le> 4300
      then Inr (foldl (\<lambda>a c. 10 * a + digit_value c) 0 s)
      else Inl ValueError)"

text \<open>\<open>s.replace(c, '')\<close> for a single character, and \<open>s.endswith(c)\<close>.\<close>

definition remove_char :: "nat \<Rightarrow> pystr \<Rightarrow> pystr" where
  "remove_char c s = filter (\<lambda>x. x \<noteq> c) s"

definition endswith :: "pystr \<Rightarrow> nat \<Rightarrow> bool" where
  "endswith s c \<longleftrightarrow> s \<noteq> [] \<and> last s = c"

text \<open>
  \<open>re.match(r'^\d{4}$', s)\<close>: four decimal digits, then the end of the string or a
  line feed that ends the string.
\<close>

definition re_match_4digits :: "pystr \<Rightarrow> bool" where
  "re_match_4digits s \<longleftrightarrow>
     list_all is_decimal (take 4 s) \<and> (length s = 4 \<or> (length s = 5 \<and> s ! 4 = 10))"

section \<open>Table extractor: \<open>parse_pcf_excel\<close>\<close>

text \<open>
  The source reads a cell of the grid in two ways only, \<open>pd.notna(cell)\<close> and
  \<open>str(cell)\<close>: a cell is \<open>None\<close> when it is missing and otherwise the text that
  \<open>str\<close> gives. A grid is the list of the rows of the frame.
\<close>

type_synonym cell = "pystr option"

type_synonym grid = "cell list list"

text \<open>
  The markers, as code points: the header of the stock code column (U+80A1 U+7968 U+4EE3
  U+865F), cash (U+73FE U+91D1) and total (U+5408 U+8A08); the comma, the percent sign and
  the texts "0" and "0%".
\<close>

definition HEADER_MARKER :: pystr where
  "HEADER_MARKER = [32929, 31080, 20195, 34399]"

definition CASH_MARKER :: pystr where
  "CASH_MARKER = [29694, 37329]"

definition TOTAL_MARKER :: pystr where
  "TOTAL_MARKER = [21512, 35336]"

definition COMMA :: nat where
  "COMMA = 44"

definition PERCENT :: nat where
  "PERCENT = 37"

text \<open>Line 272: some cell of the row that is not missing has the header marker in it.\<close>

definition has_header :: "cell list \<Rightarrow> bool" where
  "has_header row = list_ex (\<lambda>c. case c of None \<Rightarrow> False | Some s \<Rightarrow> contains s HEADER_MARKER) row"

fun find_header :: "grid \<Rightarrow> nat \<Rightarrow> nat option" where
  "find_header [] i = None"
| "find_header (row # rows) i = (if has_header row then Some i else find_header rows (Suc i))"

text \<open>
  Line 285: the first cell, stripped, or the empty string when it is missing.
  \<open>row_values[0]\<close> raises \<open>IndexError\<close> on a row without cells.
\<close>

definition first_col :: "cell list \<Rightarrow> pyerror + pystr" where
  "first_col row_values =
     (case row_values of
        [] \<Rightarrow> Inl IndexError
      | c # _ \<Rightarrow> Inr (case c of None \<Rightarrow> [] | Some s \<Rightarrow> strip s))"

text \<open>Lines 288 to 291: the test that ends the list of stocks.\<close>

definition is_terminal :: "pystr \<Rightarrow> bool" where
  "is_terminal fc \<longleftrightarrow>
     fc = [] \<or> contains fc CASH_MARKER \<or> contains fc TOTAL_MARKER \<or> \<not> re_match_4digits fc"

fun find_end :: "grid \<Rightarrow> nat \<Rightarrow> pyerror + nat option" where
  "find_end [] i = Inr None"
| "find_end (row # rows) i =
     (case first_col row of
        Inl e \<Rightarrow> Inl e
      | Inr fc \<Rightarrow> if is_terminal fc then Inr (Some i) else find_end rows (Suc i))"

text \<open>
  A row of the list of stocks: it has a first cell, and the test of lines 288 to 291 fails
  on it. A terminal row has a first cell on which the test holds.
\<close>

definition stock_row :: "cell list \<Rightarrow> bool" where
  "stock_row row = (case first_col row of Inl e \<Rightarrow> False | Inr fc \<Rightarrow> \<not> is_terminal fc)"

definition terminal_row :: "cell list \<Rightarrow> bool" where
  "terminal_row row = (case first_col row of Inl e \<Rightarrow> False | Inr fc \<Rightarrow> is_terminal fc)"

text \<open>The number of cells of a row that are not missing.\<close>

definition populated_cells :: "cell list \<Rightarrow> nat" where
  "populated_cells row = length (filter (\<lambda>c. c \<noteq> None) row)"

text \<open>
  Lines 269 to 298: the rows \<open>stock_header_row + 1\<close> to \<open>stock_end_row - 1\<close> of the
  grid. \<open>ValueError\<close> when no row has the header marker.
\<close>

definition stock_rows :: "grid \<Rightarrow> pyerror + grid" where
  "stock_rows df =
     (case find_header df 0 of
        None \<Rightarrow> Inl ValueError
      | Some stock_header_row \<Rightarrow>
          (case find_end (drop (stock_header_row + 1) df) (stock_header_row + 1) of
             Inl e \<Rightarrow> Inl e
           | Inr found \<Rightarrow>
               (let stock_end_row = (case found of None \<Rightarrow> length df | Some i \<Rightarrow> i)
                in Inr (take (stock_end_row - (stock_header_row + 1))
                          (drop (stock_header_row + 1) df)))))"

text \<open>
  Lines 305 to 323: one row of the range. Python's \<open>float\<close> is an argument of the model.
\<close>

definition parse_row :: "(pystr \<Rightarrow> pyerror + rat) \<Rightarrow> cell list \<Rightarrow> pyerror + holding option" where
  "parse_row float_of row_values =
     (if 4 \<le> length row_values \<and> row_values ! 0 \<noteq> None then
        (let code = strip (the (row_values ! 0));
             name = (case row_values ! 1 of None \<Rightarrow> [] | Some s \<Rightarrow> strip s);
             shares_str = (case row_values ! 2 of None \<Rightarrow> [48] | Some s \<Rightarrow> strip s);
             weight_str = (case row_values ! 3 of None \<Rightarrow> [48, 37] | Some s \<Rightarrow> strip s)
         in case (if isdigit (remove_char COMMA shares_str)
                  then py_int (remove_char COMMA shares_str) else Inr 0) of
              Inl e \<Rightarrow> Inl e
            | Inr n \<Rightarrow>
                (case (if endswith weight_str PERCENT
                       then float_of (remove_char PERCENT weight_str) else Inr 0) of
                   Inl e \<Rightarrow> Inl e
                 | Inr w \<Rightarrow>
                     Inr (Some \<lparr>stock_code = code, stock_name = name, shares = n, weight = w\<rparr>)))
      else Inr None)"

fun extract_rows :: "(pystr \<Rightarrow> pyerror + rat) \<Rightarrow> grid \<Rightarrow> pyerror + holding list" where
  "extract_rows float_of [] = Inr []"
| "extract_rows float_of (row # rows) =
     (case parse_row float_of row of
        Inl e \<Rightarrow> Inl e
      | Inr h \<Rightarrow>
          (case extract_rows float_of rows of
             Inl e \<Rightarrow> Inl e
           | Inr hs \<Rightarrow> Inr (case h of None \<Rightarrow> hs | Some x \<Rightarrow> x # hs)))"

definition parse_pcf_excel :: "(pystr \<Rightarrow> pyerror + rat) \<Rightarrow> grid \<Rightarrow> pyerror + holding list" where
  "parse_pcf_excel float_of df =
     (case stock_rows df of
        Inl e \<Rightarrow> Inl e
      | Inr rows \<Rightarrow> extract_rows float_of rows)"

section \<open>Delta engine: \<open>compare_pcf_data\<close>\<close>

text \<open>
  One row of the comparison data frame, in the column order of the source: code, name,
  shares, weight, previous shares, previous weight, change of shares, change of shares in
  percent, change of weight.
\<close>

record comparison_row =
  c_code :: pystr
  c_name :: pystr
  current_shares :: int
  current_weight :: rat
  prev_shares :: int
  prev_weight :: rat
  shares_absolute_change :: int
  shares_change_display :: shown
  weight_change :: pyfloat

text \<open>
  The loops over \<open>iterrows()\<close> that fill \<open>current_dict\<close> and \<open>prev_dict\<close>: a later
  row with the same code overwrites an earlier one.
\<close>

definition build_dict :: "holding list \<Rightarrow> (pystr \<rightharpoonup> holding)" where
  "build_dict rows = foldl (\<lambda>m r. m(stock_code r \<mapsto> r)) Map.empty rows"

definition all_stock_codes :: "holding list \<Rightarrow> holding list \<Rightarrow> pystr set" where
  "all_stock_codes current_df previous_df =
     dom (build_dict current_df) \<union> dom (build_dict previous_df)"

text \<open>
  Python fixes no order for the iteration over a \<open>set\<close>: any enumeration without
  repetition is possible. The enumeration that a run takes is an argument of the model.
\<close>

definition set_iteration :: "'a set \<Rightarrow> 'a list \<Rightarrow> bool" where
  "set_iteration S order \<longleftrightarrow> distinct order \<and> set order = S"

text \<open>
  The percentage of lines 390 to 395: the quotient of two \<open>int\<close>, which may raise
  \<open>OverflowError\<close>, times the float 100, which may overflow to infinity.
\<close>

definition shares_change :: "int \<Rightarrow> int \<Rightarrow> pyerror + pyfloat" where
  "shares_change cur prev =
     (if prev \<noteq> 0 then
        (case int_true_div (cur - prev) prev of
           Inl e \<Rightarrow> Inl e
         | Inr q \<Rightarrow> Inr (float_mul q 100))
      else if cur > 0 then Inr PInf else Inr (Fin 0))"

text \<open>
  Lines 399 to 408: what is shown in the column of the change in percent, and the absolute
  change.
\<close>

definition change_display :: "pyfloat \<Rightarrow> int \<Rightarrow> int \<Rightarrow> shown \<times> int" where
  "change_display sc cur prev =
     (if sc = PInf then (Label NEW, cur)
      else if sc = Fin 0 \<and> cur = 0 \<and> prev > 0 then (Label LIQUIDATED, - prev)
      else (Number (py_round2 sc), cur - prev))"

text \<open>
  The body of the loop over \<open>all_stock_codes\<close>. \<open>prev_dict[stock_code]\<close> raises
  \<open>KeyError\<close> for a code that is in neither dictionary, and the percentage may raise
  \<open>OverflowError\<close>.
\<close>

definition compare_row ::
  "(pystr \<rightharpoonup> holding) \<Rightarrow> (pystr \<rightharpoonup> holding) \<Rightarrow> pystr \<Rightarrow> pyerror + comparison_row" where
  "compare_row current_dict prev_dict code =
     (case (case current_dict code of
              Some h \<Rightarrow> Inr (shares h, weight h, stock_name h)
            | None \<Rightarrow>
                (case prev_dict code of
                   None \<Rightarrow> Inl KeyError
                 | Some p \<Rightarrow> Inr (0, 0, stock_name p))) of
        Inl e \<Rightarrow> Inl e
      | Inr (cur_shares, cur_weight, name) \<Rightarrow>
          (let (p_shares, p_weight) =
                 (case prev_dict code of
                    Some p \<Rightarrow> (shares p, weight p)
                  | None \<Rightarrow> (0, 0))
           in case shares_change cur_shares p_shares of
                Inl e \<Rightarrow> Inl e
              | Inr sc \<Rightarrow>
                  (let wc = float_sub cur_weight p_weight;
                       (display, absolute) = change_display sc cur_shares p_shares
                   in Inr \<lparr>c_code = code, c_name = name,
                            current_shares = cur_shares, current_weight = cur_weight,
                            prev_shares = p_shares, prev_weight = p_weight,
                            shares_absolute_change = absolute,
                            shares_change_display = display,
                            weight_change = py_round2 wc\<rparr>)))"

fun compare_rows ::
  "(pystr \<rightharpoonup> holding) \<Rightarrow> (pystr \<rightharpoonup> holding) \<Rightarrow> pystr list \<Rightarrow> pyerror + comparison_row list" where
  "compare_rows current_dict prev_dict [] = Inr []"
| "compare_rows current_dict prev_dict (code # codes) =
     (case compare_row current_dict prev_dict code of
        Inl e \<Rightarrow> Inl e
      | Inr r \<Rightarrow>
          (case compare_rows current_dict prev_dict codes of
             Inl e \<Rightarrow> Inl e
           | Inr rs \<Rightarrow> Inr (r # rs)))"

text \<open>
  \<open>sort_values\<close> on two columns, both descending: pandas reverses the rank of each key
  and sorts stably by the pair, which is a stable ascending sort by the negated pair.
\<close>

definition sort_key_desc :: "comparison_row \<Rightarrow> rat \<times> rat" where
  "sort_key_desc r = (- current_weight r, - prev_weight r)"

definition sort_values :: "comparison_row list \<Rightarrow> comparison_row list" where
  "sort_values rows = sort_key sort_key_desc rows"

text \<open>
  \<open>compare_pcf_data\<close>, with the iteration order of \<open>all_stock_codes\<close> as its first
  argument. A data frame built from an empty list has no columns, and \<open>sort_values\<close>
  raises \<open>KeyError\<close> for a column that does not exist.
\<close>

definition compare_pcf_data ::
  "pystr list \<Rightarrow> holding list \<Rightarrow> holding list \<Rightarrow> pyerror + comparison_row list" where
  "compare_pcf_data order current_df previous_df =
     (case compare_rows (build_dict current_df) (build_dict previous_df) order of
        Inl e \<Rightarrow> Inl e
      | Inr comparison_data \<Rightarrow>
          if comparison_data = [] then Inl KeyError
          else Inr (sort_values comparison_data))"

text \<open>The shares and the weight that line 371 to 388 resolve for a code.\<close>

definition shares_of :: "holding list \<Rightarrow> pystr \<Rightarrow> int" where
  "shares_of df code = (case build_dict df code of Some h \<Rightarrow> shares h | None \<Rightarrow> 0)"

definition weight_of :: "holding list \<Rightarrow> pystr \<Rightarrow> rat" where
  "weight_of df code = (case build_dict df code of Some h \<Rightarrow> weight h | None \<Rightarrow> 0)"

text \<open>
  The same on the rows of a table, without the dictionaries: the codes of the table, the
  last row that has a code, and the shares of that row, 0 when no row has the code.
\<close>

definition codes_of :: "holding list \<Rightarrow> pystr set" where
  "codes_of df = stock_code ` set df"

definition last_holding :: "holding list \<Rightarrow> pystr \<Rightarrow> holding option" where
  "last_holding df code = find (\<lambda>h. stock_code h = code) (rev df)"

definition table_shares :: "holding list \<Rightarrow> pystr \<Rightarrow> int" where
  "table_shares df code = (case last_holding df code of Some h \<Rightarrow> shares h | None \<Rightarrow> 0)"

text \<open>
  Share counts below \<open>10 ^ 300\<close> in absolute value: the percentage of such counts is far
  inside the range of a float.
\<close>

definition moderate_shares :: "holding list \<Rightarrow> bool" where
  "moderate_shares df \<longleftrightarrow> (\<forall>h \<in> set df. \<bar>shares h\<bar> < 10 ^ 300)"

section \<open>Report writer: \<open>save_comparison_result\<close>\<close>

text \<open>
  The nine column names of the comparison data frame, as code points, in the order of the
  keys of the dictionary of line 410: code, name, shares, weight, previous shares,
  previous weight, change of shares, change of shares in percent, change of weight.
\<close>

definition COL_CODE :: pystr where
  "COL_CODE = [32929, 31080, 20195, 34399]"

definition COL_NAME :: pystr where
  "COL_NAME = [32929, 31080, 21517, 31281]"

definition COL_SHARES :: pystr where
  "COL_SHARES = [32929, 25976]"

definition COL_WEIGHT :: pystr where
  "COL_WEIGHT = [25345, 32929, 27402, 37325]"

definition COL_PREV_SHARES :: pystr where
  "COL_PREV_SHARES = [21069, 26085, 32929, 25976]"

definition COL_PREV_WEIGHT :: pystr where
  "COL_PREV_WEIGHT = [21069, 26085, 25345, 32929, 27402, 37325]"

definition COL_SHARE_CHANGE :: pystr where
  "COL_SHARE_CHANGE = [32929, 25976, 35722, 21270]"

definition COL_CHANGE_PCT :: pystr where
  "COL_CHANGE_PCT = [32929, 25976, 35722, 21270, 40, 37, 41]"

definition COL_WEIGHT_CHANGE :: pystr where
  "COL_WEIGHT_CHANGE = [25345, 32929, 27402, 37325, 35722, 21270, 40, 37, 41]"

definition column_names :: "pystr list" where
  "column_names = [COL_CODE, COL_NAME, COL_SHARES, COL_WEIGHT, COL_PREV_SHARES,
     COL_PREV_WEIGHT, COL_SHARE_CHANGE, COL_CHANGE_PCT, COL_WEIGHT_CHANGE]"

text \<open>
  What \<open>to_excel\<close> writes for a float and for a value of the percentage column: an
  infinity is written as the text \<open>inf\<close> or \<open>-inf\<close> (the default \<open>inf_rep\<close>).
\<close>

fun cell_of_float :: "pyfloat \<Rightarrow> pyval" where
  "cell_of_float (Fin q) = VFloat q"
| "cell_of_float PInf = VStr [105, 110, 102]"
| "cell_of_float NInf = VStr [45, 105, 110, 102]"

fun cell_of_shown :: "shown \<Rightarrow> pyval" where
  "cell_of_shown (Label s) = VStr s"
| "cell_of_shown (Number x) = cell_of_float x"

definition row_values :: "comparison_row \<Rightarrow> pyval list" where
  "row_values r = [VStr (c_code r), VStr (c_name r), VInt (current_shares r),
     VFloat (current_weight r), VInt (prev_shares r), VFloat (prev_weight r),
     VInt (shares_absolute_change r), cell_of_shown (shares_change_display r),
     cell_of_float (weight_change r)]"

text \<open>
  A \<open>PatternFill\<close> with its colour, and a worksheet: the values of its rows (row 1 first)
  and the fill of each cell, addressed by row and column from 1.
\<close>

datatype fill = PatternFill string

definition new_stock_fill :: fill where
  "new_stock_fill = PatternFill ''FFFF00''"

definition negative_change_fill :: fill where
  "negative_change_fill = PatternFill ''90EE90''"

definition high_change_fill :: fill where
  "high_change_fill = PatternFill ''FFB6C1''"

record worksheet =
  cells :: "pyval list list"
  fills :: "nat \<times> nat \<Rightarrow> fill option"

text \<open>
  \<open>to_excel(index=False)\<close> followed by \<open>load_workbook\<close>: a header row with the column
  names, one row for each row of the frame, values read back as they were written and no
  cell filled. A frame built from an empty list has no columns and gives an empty sheet.
\<close>

definition to_excel :: "comparison_row list \<Rightarrow> worksheet" where
  "to_excel comparison_df =
     \<lparr>cells = (if comparison_df = [] then []
               else map VStr column_names # map row_values comparison_df),
      fills = (\<lambda>_. None)\<rparr>"

text \<open>\<open>worksheet.cell(row, column).value\<close>: a cell that was never written holds \<open>None\<close>.\<close>

definition cell_value :: "worksheet \<Rightarrow> nat \<Rightarrow> nat \<Rightarrow> pyval" where
  "cell_value ws row col =
     (if 1 \<le> row \<and> row \<le> length (cells ws) then
        (let r = cells ws ! (row - 1)
         in if 1 \<le> col \<and> col \<le> length r then r ! (col - 1) else VNone)
      else VNone)"

text \<open>
  \<open>[cell.value for cell in worksheet[1]]\<close>: the first row; on an empty sheet it is the
  single cell A1, which holds \<open>None\<close>.
\<close>

definition headers_of :: "worksheet \<Rightarrow> pyval list" where
  "headers_of ws = (case cells ws of [] \<Rightarrow> [VNone] | h # _ \<Rightarrow> if h = [] then [VNone] else h)"

fun index_of :: "'a list \<Rightarrow> 'a \<Rightarrow> nat option" where
  "index_of [] x = None"
| "index_of (y # ys) x = (if y = x then Some 0 else map_option Suc (index_of ys x))"

text \<open>\<open>headers.index(name) + 1 if name in headers else None\<close>.\<close>

definition column_of :: "pyval list \<Rightarrow> pystr \<Rightarrow> nat option" where
  "column_of headers name = map_option Suc (index_of headers (VStr name))"

text \<open>The truth value of a column index: \<open>None\<close> and 0 are false.\<close>

definition truthy :: "nat option \<Rightarrow> bool" where
  "truthy col = (case col of None \<Rightarrow> False | Some n \<Rightarrow> n \<noteq> 0)"

text \<open>\<open>isinstance(v, (int, float))\<close> with the number, if it is one.\<close>

fun number_of :: "pyval \<Rightarrow> rat option" where
  "number_of (VInt i) = Some (of_int i)"
| "number_of (VFloat q) = Some q"
| "number_of (VStr s) = None"
| "number_of VNone = None"

text \<open>Lines 465 to 492: the fill chosen for one row of the sheet.\<close>

definition row_fill :: "worksheet \<Rightarrow> nat option \<Rightarrow> nat option \<Rightarrow> nat \<Rightarrow> fill option" where
  "row_fill ws change_pct_col share_change_col row =
     (if truthy change_pct_col \<and> cell_value ws row (the change_pct_col) = VStr NEW
      then Some new_stock_fill
      else
        (let share_change_value =
               (if truthy share_change_col then cell_value ws row (the share_change_col)
                else VNone);
             change_pct_value =
               (if truthy change_pct_col then cell_value ws row (the change_pct_col)
                else VNone)
         in if (case number_of share_change_value of None \<Rightarrow> False | Some x \<Rightarrow> x < 0)
            then Some negative_change_fill
            else if (case number_of change_pct_value of None \<Rightarrow> False | Some x \<Rightarrow> 30 < x)
            then Some high_change_fill
            else None))"

text \<open>Lines 495 to 497: the fill is set on the columns 1 to \<open>len(headers)\<close> of the row.\<close>

definition set_fill :: "fill \<Rightarrow> nat \<Rightarrow> nat \<Rightarrow> worksheet \<Rightarrow> worksheet" where
  "set_fill f row col ws = ws\<lparr>fills := (fills ws)((row, col) \<mapsto> f)\<rparr>"

definition fill_row :: "fill \<Rightarrow> nat \<Rightarrow> nat \<Rightarrow> worksheet \<Rightarrow> worksheet" where
  "fill_row f ncols row ws = fold (set_fill f row) [1..<ncols + 1] ws"

definition highlight_row :: "nat option \<Rightarrow> nat option \<Rightarrow> nat \<Rightarrow> nat \<Rightarrow> worksheet \<Rightarrow> worksheet" where
  "highlight_row change_pct_col share_change_col ncols row ws =
     (case row_fill ws change_pct_col share_change_col row of
        None \<Rightarrow> ws
      | Some f \<Rightarrow> fill_row f ncols row ws)"

text \<open>
  \<open>save_comparison_result\<close>: the worksheet that is saved. The loop runs over the rows 2
  to \<open>len(comparison_df) + 1\<close>.
\<close>

definition save_comparison_result :: "comparison_row list \<Rightarrow> worksheet" where
  "save_comparison_result comparison_df =
     (let worksheet = to_excel comparison_df;
          headers = headers_of worksheet;
          change_pct_col = column_of headers COL_CHANGE_PCT;
          share_change_col = column_of headers COL_SHARE_CHANGE
      in fold (highlight_row change_pct_col share_change_col (length headers))
           [2..<length comparison_df + 2] worksheet)"

section \<open>Retrieval and the driver: \<open>process\<close> and \<open>main\<close>\<close>

text \<open>
  A date string in the form YYYY-MM-DD is modelled by the proleptic ordinal of its date
  (\<open>date.toordinal()\<close>: 1 is the first of January of the year 1, a Monday); a string
  that \<open>strptime\<close> rejects is outside the embedding. What the libraries compute is an
  argument of the model: the year, month and day of an ordinal, the grid that
  \<open>pd.read_excel\<close> reads from the bytes, Python's \<open>float\<close>, and the order in which a
  set of codes is iterated.
\<close>

record pylib =
  ymd :: "int \<Rightarrow> int \<times> int \<times> int"
  read_excel :: "nat list \<Rightarrow> pyerror + grid"
  float_of :: "pystr \<Rightarrow> pyerror + rat"
  set_order :: "pystr set \<Rightarrow> pystr list"

text \<open>
  What the program prints, as far as the claims speak of it: the notice after the tenth
  failed attempt (line 136), the warning that no previous file was found (line 165), the
  message that parsing or comparing failed (line 187), and the three last lines of
  \<open>main\<close> (lines 528, 530 and 533).
\<close>

datatype message =
  Exhausted | NoPreviousFile | AnalysisFailed pyerror
  | ResultFile pystr | NotProduced | ErrorMessage pyerror

text \<open>
  The world outside the program: the responses that \<open>session.get\<close> followed by
  \<open>raise_for_status\<close> will give, in the order of the calls (the content, or the
  exception), the requests made so far, the files written and the lines printed.
\<close>

record world =
  responses :: "(pyerror + nat list) list"
  requested :: "(pystr \<times> pystr) list"
  files :: "(pystr \<times> worksheet) list"
  console :: "message list"

text \<open>The decimal digits of a natural number, and \<open>f"{n:0wd}"\<close>.\<close>

fun digits :: "nat \<Rightarrow> pystr" where
  "digits n = (if n < 10 then [48 + n] else digits (n div 10) @ [48 + n mod 10])"

declare digits.simps [simp del]

definition zero_pad :: "nat \<Rightarrow> pystr \<Rightarrow> pystr" where
  "zero_pad w s = replicate (w - length s) 48 @ s"

definition format_d :: "nat \<Rightarrow> int \<Rightarrow> pystr" where
  "format_d w n =
     (if n < 0 then 45 # zero_pad (w - 1) (digits (nat (- n))) else zero_pad w (digits (nat n)))"

definition date_to_roc_format :: "pylib \<Rightarrow> int \<Rightarrow> pystr" where
  "date_to_roc_format lib date =
     (let (year, month, day) = ymd lib date;
          roc_year = year - 1911
      in format_d 3 roc_year @ [47] @ format_d 2 month @ [47] @ format_d 2 day)"

text \<open>\<open>date.weekday()\<close>: Monday is 0, Saturday 5 and Sunday 6.\<close>

definition weekday :: "int \<Rightarrow> int" where
  "weekday d = (d + 6) mod 7"

text \<open>
  The loop of line 61. It stops after at most two steps, on a Friday, so the subtraction
  in it never leaves the range of dates.
\<close>

function skip_weekend :: "int \<Rightarrow> int" where
  "skip_weekend prev_day =
     (if 5 \<le> weekday prev_day then skip_weekend (prev_day - 1) else prev_day)"
  by pat_completeness auto
termination
  by (relation "measure (\<lambda>d. nat (weekday d))") (auto simp: weekday_def, presburger)

declare skip_weekend.simps [simp del]

text \<open>
  \<open>get_previous_business_day\<close>: \<open>date_obj - timedelta(days=1)\<close> raises
  \<open>OverflowError\<close> below the first day of the calendar.
\<close>

definition get_previous_business_day :: "int \<Rightarrow> pyerror + int" where
  "get_previous_business_day date =
     (if date - 1 < 1 then Inl OverflowError else Inr (skip_weekend (date - 1)))"

text \<open>
  \<open>download_pcf_excel\<close>: any exception and a body under 1000 bytes give \<open>None\<close>. A
  call for which the world has no response left fails like one that raises.
\<close>

definition download_pcf_excel :: "pystr \<Rightarrow> pystr \<Rightarrow> world \<Rightarrow> nat list option \<times> world" where
  "download_pcf_excel fund_code roc_date w =
     (let w1 = w\<lparr>requested := requested w @ [(fund_code, roc_date)]\<rparr>
      in case responses w of
           [] \<Rightarrow> (None, w1)
         | r # rs \<Rightarrow>
             (let w2 = w1\<lparr>responses := rs\<rparr>
              in case r of
                   Inl e \<Rightarrow> (None, w2)
                 | Inr content \<Rightarrow>
                     if length content < 1000 then (None, w2) else (Some content, w2)))"

text \<open>
  The loop of \<open>find_and_download_previous_day\<close>, with the number of attempts that are
  left; each attempt starts from the date of the attempt before it.
\<close>

fun find_previous ::
  "pylib \<Rightarrow> nat \<Rightarrow> pystr \<Rightarrow> int \<Rightarrow> world \<Rightarrow> (pyerror + nat list option) \<times> world" where
  "find_previous lib 0 fund_code current_date w =
     (Inr None, w\<lparr>console := console w @ [Exhausted]\<rparr>)"
| "find_previous lib (Suc n) fund_code current_date w =
     (case get_previous_business_day current_date of
        Inl e \<Rightarrow> (Inl e, w)
      | Inr prev_date \<Rightarrow>
          (case download_pcf_excel fund_code (date_to_roc_format lib prev_date) w of
             (Some excel_content, w') \<Rightarrow> (Inr (Some excel_content), w')
           | (None, w') \<Rightarrow> find_previous lib n fund_code prev_date w'))"

definition find_and_download_previous_day ::
  "pylib \<Rightarrow> pystr \<Rightarrow> int \<Rightarrow> world \<Rightarrow> (pyerror + nat list option) \<times> world" where
  "find_and_download_previous_day lib fund_code date w = find_previous lib 10 fund_code date w"

text \<open>
  The name of the report: \<open>output/PCF_Comparison_\<close>, the fund code, an underscore, the
  date without its hyphens, and \<open>.xlsx\<close>.
\<close>

definition output_filepath :: "pylib \<Rightarrow> int \<Rightarrow> pystr \<Rightarrow> pystr" where
  "output_filepath lib date fund_code =
     (let (year, month, day) = ymd lib date
      in map of_char ''output/PCF_Comparison_'' @ fund_code @ [95] @
         format_d 4 year @ format_d 2 month @ format_d 2 day @ map of_char ''.xlsx'')"

text \<open>
  Lines 171 to 184, the body of the \<open>try\<close>: both files are parsed, the tables compared
  and the report saved. Saving the workbook and printing the summary are taken to succeed.
\<close>

definition analyse ::
  "pylib \<Rightarrow> int \<Rightarrow> pystr \<Rightarrow> nat list \<Rightarrow> nat list \<Rightarrow> pyerror + pystr \<times> worksheet" where
  "analyse lib date fund_code current_excel_content prev_excel_content =
     (case read_excel lib current_excel_content of
        Inl e \<Rightarrow> Inl e
      | Inr g1 \<Rightarrow>
     (case parse_pcf_excel (float_of lib) g1 of
        Inl e \<Rightarrow> Inl e
      | Inr current_df \<Rightarrow>
     (case read_excel lib prev_excel_content of
        Inl e \<Rightarrow> Inl e
      | Inr g2 \<Rightarrow>
     (case parse_pcf_excel (float_of lib) g2 of
        Inl e \<Rightarrow> Inl e
      | Inr previous_df \<Rightarrow>
     (case compare_pcf_data (set_order lib (all_stock_codes current_df previous_df))
             current_df previous_df of
        Inl e \<Rightarrow> Inl e
      | Inr comparison_df \<Rightarrow>
          Inr (output_filepath lib date fund_code, save_comparison_result comparison_df))))))"

text \<open>
  \<open>process\<close>: an exception that leaves it is \<open>Inl\<close>, the path or \<open>None\<close> that it
  returns is \<open>Inr\<close>. The directory \<open>output\<close> is taken to exist or to be created.
\<close>

definition process :: "pylib \<Rightarrow> int \<Rightarrow> pystr \<Rightarrow> world \<Rightarrow> (pyerror + pystr option) \<times> world" where
  "process lib date fund_code w =
     (let roc_date = date_to_roc_format lib date
      in case download_pcf_excel fund_code roc_date w of
           (None, w1) \<Rightarrow> (Inl CurrentDateUnavailable, w1)
         | (Some current_excel_content, w1) \<Rightarrow>
             (case find_and_download_previous_day lib fund_code date w1 of
                (Inl e, w2) \<Rightarrow> (Inl e, w2)
              | (Inr None, w2) \<Rightarrow> (Inr None, w2\<lparr>console := console w2 @ [NoPreviousFile]\<rparr>)
              | (Inr (Some prev_excel_content), w2) \<Rightarrow>
                  (case analyse lib date fund_code current_excel_content prev_excel_content of
                     Inl e \<Rightarrow> (Inr None, w2\<lparr>console := console w2 @ [AnalysisFailed e]\<rparr>)
                   | Inr (path, sheet) \<Rightarrow>
                       (Inr (Some path), w2\<lparr>files := files w2 @ [(path, sheet)]\<rparr>))))"

text \<open>
  \<open>main\<close> after the arguments are parsed: the exit code of the process and the world it
  leaves. An exception gives \<open>sys.exit(1)\<close>; otherwise the program ends with code 0.
\<close>

definition main :: "pylib \<Rightarrow> int \<Rightarrow> pystr \<Rightarrow> world \<Rightarrow> int \<times> world" where
  "main lib date fund_code w =
     (case process lib date fund_code w of
        (Inl e, w') \<Rightarrow> (1, w'\<lparr>console := console w' @ [ErrorMessage e]\<rparr>)
      | (Inr comparison_file, w') \<Rightarrow>
          (0, w'\<lparr>console := console w' @
                 [case comparison_file of
                    Some path \<Rightarrow> if path \<noteq> [] then ResultFile path else NotProduced
                  | None \<Rightarrow> NotProduced]\<rparr>))"

text \<open>A response counts as failed when it is an exception or a body under 1000 bytes.\<close>

definition failed :: "pyerror + nat list \<Rightarrow> bool" where
  "failed r = (case r of Inl e \<Rightarrow> True | Inr content \<Rightarrow> length content < 1000)"

section \<open>Example inputs\<close>

text \<open>The stock codes "2330" and "2317", and the name "T", as code points.\<close>

definition code_2330 :: pystr where
  "code_2330 = [50, 51, 51, 48]"

definition code_2317 :: pystr where
  "code_2317 = [50, 51, 49, 55]"

definition mk_holding :: "pystr \<Rightarrow> int \<Rightarrow> rat \<Rightarrow> holding" where
  "mk_holding code n w = \<lparr>stock_code = code, stock_name = [84], shares = n, weight = w\<rparr>"

text \<open>
  A parser for the plain decimal texts of the examples (digits, with an optional fraction
  after a point), on which it gives what Python's \<open>float\<close> gives.
\<close>

definition float_of_plain :: "pystr \<Rightarrow> pyerror + rat" where
  "float_of_plain s =
     (let whole = takeWhile (\<lambda>c. c \<noteq> 46) s; frac = drop (length whole + 1) s
      in case py_int whole of
           Inl e \<Rightarrow> Inl e
         | Inr n \<Rightarrow>
             (if frac = [] then (if length whole = length s then Inr (of_int n) else Inl ValueError)
              else (case py_int frac of
                      Inl e \<Rightarrow> Inl e
                    | Inr m \<Rightarrow> Inr (of_int n + of_int m / 10 ^ length frac))))"

text \<open>
  A sheet of four columns: a title row, the header row, the stocks "2330" (1,000 shares,
  5.25%) and "2317" (no name, 20 shares, weight without a percent sign), and the row of
  the total.
\<close>

definition ex_grid :: grid where
  "ex_grid =
     [[Some [80, 67, 70], None, None, None],
      [Some HEADER_MARKER, Some [78], Some [83], Some [87]],
      [Some [50, 51, 51, 48], Some [32, 84, 32], Some [49, 44, 48, 48, 48], Some [53, 46, 50, 53, 37]],
      [Some [50, 51, 49, 55], None, Some [50, 48], Some [55]],
      [Some TOTAL_MARKER, None, Some [49, 48, 50, 48], None]]"

text \<open>
  A sheet with the header in row 3, six stocks in the rows 4 to 9, the total in row 10 and
  one more row with a stock code after it.
\<close>

definition ex_stock :: "pystr \<Rightarrow> cell list" where
  "ex_stock code = [Some code, Some [84], Some [49, 48], Some [53, 37]]"

definition ex_codes :: "pystr list" where
  "ex_codes = [[50, 51, 51, 48], [50, 51, 49, 55], [50, 52, 53, 52], [50, 51, 48, 56],
     [50, 56, 56, 49], [50, 56, 56, 50]]"

definition ex_sheet :: grid where
  "ex_sheet =
     [[Some [80, 67, 70], None, None, None],
      [None, None, None, None],
      [Some [68, 97, 116, 101], Some [49, 49, 51, 47, 48, 51, 47, 49, 53], None, None],
      [Some HEADER_MARKER, Some [78], Some [83], Some [87]]] @
     map ex_stock ex_codes @
     [[Some TOTAL_MARKER, None, Some [54, 48], Some [51, 48, 37]], ex_stock [49, 49, 48, 49]]"


text \<open>
  A library whose calendar gives the fields of 2024-03-15 for every ordinal and whose
  \<open>read_excel\<close> rejects every file, and a world that has the given responses and
  nothing requested, written or printed yet. The fund code "49YTW" is
  \<open>[52, 57, 89, 84, 87]\<close>, and 738960 is the ordinal of 2024-03-15.
\<close>

definition ex_lib :: pylib where
  "ex_lib = \<lparr>ymd = (\<lambda>d. (2024, 3, 15)), read_excel = (\<lambda>b. Inl ValueError),
     float_of = float_of_plain, set_order = (\<lambda>S. [])\<rparr>"

definition ex_world :: "(pyerror + nat list) list \<Rightarrow> world" where
  "ex_world rs = \<lparr>responses = rs, requested = [], files = [], console = []\<rparr>"

text \<open>
  A share count of 307 digits. The quotient of \<open>huge\<close> by one share is a float, and
  its percentage is beyond the largest float; the quotient of \<open>64 * huge\<close> by one share
  is beyond the largest float already.
\<close>

definition huge :: int where
  "huge = 2 ^ 1018"

text \<open>A constructed row: the sentinel for a new position with a negative absolute change.\<close>

definition ex_row :: comparison_row where
  "ex_row = \<lparr>c_code = code_2330, c_name = [84], current_shares = 10, current_weight = 5,
     prev_shares = 0, prev_weight = 0, shares_absolute_change = - 3,
     shares_change_display = Label NEW, weight_change = Fin 5\<rparr>"

section \<open>Properties of the floating point model\<close>

lemma round_half_even_of_int [simp]: "round_half_even (of_int k) = k"
  by (simp add: round_half_even_def)

lemma round_half_even_close: "\<bar>of_int (round_half_even y) - y\<bar> \<le> 1 / 2"
proof -
  define f where "f = \<lfloor>y\<rfloor>"
  have f: "of_int f \<le> y" "y < of_int f + 1"
    by (simp_all add: f_def) linarith
  show ?thesis
    unfolding round_half_even_def Let_def f_def [symmetric]
    using f by (simp add: abs_le_iff)
qed

lemma round_half_even_abs: "\<bar>of_int (round_half_even y) :: rat\<bar> \<le> 2 * \<bar>y\<bar>"
proof (cases "\<bar>y\<bar> < 1 / 2")
  case True
  then have "- 1 / 2 < y" and "y < 1 / 2" by (simp_all add: abs_less_iff)
  then have "\<lfloor>y\<rfloor> = 0 \<or> \<lfloor>y\<rfloor> = - 1" by linarith
  then have "round_half_even y = 0"
    using \<open>- 1 / 2 < y\<close> \<open>y < 1 / 2\<close> by (auto simp: round_half_even_def Let_def)
  then show ?thesis by simp
next
  case False
  with round_half_even_close [of y] show ?thesis by linarith
qed

lemma round2_hundredth: "\<exists>k::int. round2 x = of_int k / 100"
  by (auto simp: round2_def)

lemma round2_close: "\<bar>round2 x - x\<bar> \<le> 1 / 200"
proof -
  have "\<bar>of_int (round_half_even (x * 100)) - x * 100\<bar> \<le> 1 / 2"
    by (rule round_half_even_close)
  then show ?thesis
    by (simp add: round2_def abs_le_iff field_simps)
qed

lemma round2_of_int [simp]: "round2 (of_int k) = of_int k"
proof -
  have "round_half_even (of_int k * 100) = k * 100"
    using round_half_even_of_int [of "k * 100"] by simp
  then show ?thesis by (simp add: round2_def)
qed

lemma to_double_finite:
  assumes "\<bar>x\<bar> < 2 ^ 1024 - 2 ^ 970"
  obtains v where "to_double x = Fin v" and "\<bar>v\<bar> \<le> 2 * \<bar>x\<bar>"
proof (cases "x = 0")
  case True
  then have "to_double x = Fin 0" by (simp add: to_double_def)
  then show ?thesis using that by simp
next
  case False
  define s where "s = max (binary_exponent \<bar>x\<bar> - 52) (- 1074)"
  define v :: rat where "v = of_int (round_half_even (x / 2 powi s)) * 2 powi s"
  have pos: "(0::rat) < 2 powi s" by simp
  from False assms have d: "to_double x = Fin v"
    by (simp add: to_double_def Let_def s_def v_def)
  have "\<bar>v\<bar> = \<bar>of_int (round_half_even (x / 2 powi s)) :: rat\<bar> * 2 powi s"
    using pos by (simp add: v_def abs_mult)
  also have "\<dots> \<le> (2 * \<bar>x / 2 powi s\<bar>) * 2 powi s"
    by (rule mult_right_mono [OF round_half_even_abs]) simp
  also have "\<dots> = 2 * \<bar>x\<bar>"
    using pos by (simp add: abs_divide)
  finally have "\<bar>v\<bar> \<le> 2 * \<bar>x\<bar>" .
  with d show ?thesis by (rule that)
qed

lemma exp_up_le: "x < 2 ^ Suc n \<Longrightarrow> exp_up x \<le> int n"
proof (induction n arbitrary: x)
  case 0
  then show ?case by (subst exp_up.simps) simp
next
  case (Suc n)
  show ?case
  proof (cases "2 \<le> x")
    case True
    from Suc.prems have "x / 2 < 2 ^ Suc n" by simp
    then have "exp_up (x / 2) \<le> int n" by (rule Suc.IH)
    with True show ?thesis by (subst exp_up.simps) simp
  next
    case False
    then show ?thesis by (subst exp_up.simps) simp
  qed
qed

lemma exp_down_step: "0 < x \<Longrightarrow> x < 1 \<Longrightarrow> exp_down x = exp_down (x * 2) - 1"
  by (subst exp_down.simps) simp

lemma exp_down_stop: "\<not> (0 < x \<and> x < 1) \<Longrightarrow> exp_down x = 0"
  by (subst exp_down.simps) (simp only: if_False)

lemma exp_down_nonpos: "exp_down x \<le> 0"
proof (induction x rule: exp_down.induct)
  case (1 x)
  show ?case
  proof (cases "0 < x \<and> x < 1")
    case True
    with 1 have "exp_down (x * 2) \<le> 0" by simp
    with True show ?thesis by (simp add: exp_down_step)
  next
    case False
    then have "exp_down x = 0" by (rule exp_down_stop)
    then show ?thesis by simp
  qed
qed

lemma exp_down_le: "0 < x \<Longrightarrow> x * 2 ^ n < 1 \<Longrightarrow> exp_down x \<le> - int n - 1"
proof (induction n arbitrary: x)
  case 0
  then have x1: "x < 1" by simp
  have "exp_down (x * 2) \<le> 0" by (rule exp_down_nonpos)
  with 0(1) x1 show ?case by (simp add: exp_down_step)
next
  case (Suc n)
  have "(1::rat) \<le> 2 ^ Suc n" by (rule one_le_power) simp
  with Suc.prems(1) have "x * 1 \<le> x * 2 ^ Suc n" by (intro mult_left_mono) simp_all
  with Suc.prems(2) have x1: "x < 1" by simp
  from Suc.prems have "0 < x * 2" and "x * 2 * 2 ^ n < 1" by (simp_all add: mult.assoc)
  then have "exp_down (x * 2) \<le> - int n - 1" by (rule Suc.IH)
  with Suc.prems(1) x1 show ?case by (simp add: exp_down_step)
qed

lemma binary_exponent_le:
  assumes "0 < x" and "x < 2 powi (n + 1)"
  shows "binary_exponent x \<le> n"
proof (cases "1 \<le> x")
  case True
  with assms(2) have "(1::rat) < 2 powi (n + 1)" by linarith
  have n: "0 \<le> n"
  proof (rule ccontr)
    assume "\<not> 0 \<le> n"
    then have "n + 1 \<le> 0" by simp
    then have "(2::rat) powi (n + 1) \<le> 2 powi 0" by (rule power_int_increasing) simp
    with \<open>1 < 2 powi (n + 1)\<close> show False by simp
  qed
  then have "2 powi (n + 1) = (2::rat) ^ Suc (nat n)"
    by (simp add: power_int_def nat_add_distrib)
  with assms(2) have "exp_up x \<le> int (nat n)" by (intro exp_up_le) simp
  with True n show ?thesis by (simp add: binary_exponent_def)
next
  case False
  define m where "m = nat (- n - 1)"
  show ?thesis
  proof (cases "n \<le> - 1")
    case True
    then have "n + 1 = - int m" by (simp add: m_def)
    then have "2 powi (n + 1) = 1 / (2::rat) ^ m"
      by (simp only: power_int_minus_divide power_int_of_nat)
    with assms(2) have "x < 1 / 2 ^ m" by simp
    then have "x * 2 ^ m < 1" by (simp add: pos_less_divide_eq)
    with assms(1) have "exp_down x \<le> - int m - 1" by (rule exp_down_le)
    with True False show ?thesis by (simp add: binary_exponent_def m_def)
  next
    case n: False
    from False assms(1) have "x * 2 ^ 0 < 1" by simp
    with assms(1) have "exp_down x \<le> - int 0 - 1" by (rule exp_down_le)
    with n False show ?thesis by (simp add: binary_exponent_def)
  qed
qed

lemma to_double_exact:
  assumes k: "k \<noteq> 0" "\<bar>k\<bar> < 2 ^ 53" and j: "- 1074 \<le> j"
    and b: "\<bar>of_int k * 2 powi j :: rat\<bar> < 2 ^ 1024 - 2 ^ 970"
  shows "to_double (of_int k * 2 powi j) = Fin (of_int k * 2 powi j)"
proof -
  define x :: rat where "x = of_int k * 2 powi j"
  have x0: "x \<noteq> 0" using k(1) by (simp add: x_def)
  have ax: "\<bar>x\<bar> = of_int \<bar>k\<bar> * 2 powi j" by (simp add: x_def abs_mult)
  have "(of_int \<bar>k\<bar> :: rat) < of_int (2 ^ 53)" using k(2) by (simp only: of_int_less_iff)
  then have "of_int \<bar>k\<bar> * 2 powi j < (2::rat) ^ 53 * 2 powi j" by simp
  also have "\<dots> = 2 powi (j + 52 + 1)"
    by (simp add: power_int_add)
  finally have "\<bar>x\<bar> < 2 powi (j + 52 + 1)" by (simp only: ax)
  moreover from x0 have "0 < \<bar>x\<bar>" by simp
  ultimately have e: "binary_exponent \<bar>x\<bar> \<le> j + 52" by (rule binary_exponent_le [rotated])
  define s where "s = max (binary_exponent \<bar>x\<bar> - 52) (- 1074)"
  from e j have sj: "s \<le> j" by (simp add: s_def)
  have "(2::rat) powi j = 2 powi (j - s) * 2 powi s"
    by (simp add: power_int_add [symmetric])
  also from sj have "(2::rat) powi (j - s) = 2 ^ nat (j - s)"
    by (simp add: power_int_def)
  finally have pj: "(2::rat) powi j = 2 ^ nat (j - s) * 2 powi s" .
  have "x / 2 powi s = of_int (k * 2 ^ nat (j - s))"
    by (simp add: x_def pj)
  then have r: "round_half_even (x / 2 powi s) = k * 2 ^ nat (j - s)"
    by (simp only: round_half_even_of_int)
  have "of_int (round_half_even (x / 2 powi s)) * 2 powi s =
      of_int (k * 2 ^ nat (j - s)) * 2 powi s"
    by (simp only: r)
  also have "\<dots> = x" by (simp add: x_def pj)
  finally have "of_int (round_half_even (x / 2 powi s)) * 2 powi s = x" .
  with x0 b show ?thesis
    unfolding x_def [symmetric] by (simp add: to_double_def Let_def s_def [symmetric])
qed

lemma to_double_of_int:
  assumes "\<bar>k\<bar> < 2 ^ 53"
  shows "to_double (of_int k) = Fin (of_int k)"
proof (cases "k = 0")
  case True
  then show ?thesis by (simp add: to_double_def)
next
  case False
  have "(of_int \<bar>k\<bar> :: rat) < of_int (2 ^ 53)" using assms by (simp only: of_int_less_iff)
  then have "\<bar>of_int k * 2 powi 0 :: rat\<bar> < 2 ^ 1024 - 2 ^ 970" by simp
  with to_double_exact [of k 0] False assms show ?thesis by simp
qed

lemma to_double_zero [simp]: "to_double 0 = Fin 0"
  by (simp add: to_double_def)

lemma to_double_one: "to_double 1 = Fin 1"
  using to_double_of_int [of 1] by simp

lemma to_double_neg_one: "to_double (- 1) = Fin (- 1)"
  using to_double_of_int [of "- 1"] by simp


lemma to_double_neg_numeral:
  "(numeral n :: int) < 2 ^ 53 \<Longrightarrow> to_double (- numeral n) = Fin (- numeral n)"
  using to_double_of_int [of "- numeral n"] by simp


lemma round2_zero [simp]: "round2 0 = 0"
  using round2_of_int [of 0] by simp

lemma round2_one [simp]: "round2 1 = 1"
  using round2_of_int [of 1] by simp

lemma round2_numeral [simp]: "round2 (numeral n) = numeral n"
  using round2_of_int [of "numeral n"] by simp

lemma round2_neg_numeral [simp]: "round2 (- numeral n) = - numeral n"
  using round2_of_int [of "- numeral n"] by simp

text \<open>
  A float of at most \<open>8 * 10 ^ 302\<close> in absolute value is rounded to a float, not to an
  infinity.
\<close>

lemma py_round2_finite:
  assumes "\<bar>x\<bar> \<le> 8 * 10 ^ 302"
  obtains v where "py_round2 (Fin x) = Fin v"
proof -
  have "\<bar>round2 x\<bar> \<le> \<bar>x\<bar> + 1 / 200"
    using round2_close [of x] by linarith
  also from assms have "\<dots> \<le> 8 * 10 ^ 302 + 1 / 200" by simp
  also have "\<dots> < 2 ^ 1024 - 2 ^ 970" by simp
  finally obtain v where "to_double (round2 x) = Fin v"
    by (rule to_double_finite)
  then have "py_round2 (Fin x) = Fin v" by simp
  then show ?thesis by (rule that)
qed

lemma quotient_bound:
  assumes "b \<noteq> 0"
  shows "\<bar>of_int a / of_int b :: rat\<bar> \<le> of_int \<bar>a\<bar>"
proof -
  from assms have "1 \<le> \<bar>b\<bar>" by simp
  then have "(of_int 1 :: rat) \<le> of_int \<bar>b\<bar>" by (simp only: of_int_le_iff)
  then have b: "(1::rat) \<le> \<bar>of_int b\<bar>" by simp
  have "\<bar>of_int a / of_int b :: rat\<bar> = \<bar>of_int a\<bar> / \<bar>of_int b\<bar>" by (rule abs_divide)
  also from b have "\<dots> \<le> \<bar>of_int a\<bar> / 1" by (intro frac_le) simp_all
  finally show ?thesis by simp
qed

text \<open>
  With share counts below \<open>10 ^ 300\<close> in absolute value the quotient of line 392 is a
  float, and so is its product with 100.
\<close>

lemma percentage_finite:
  assumes c: "\<bar>cur\<bar> < 10 ^ 300" and p: "\<bar>prev\<bar> < 10 ^ 300" and n: "prev \<noteq> 0"
  obtains q pc where "int_true_div (cur - prev) prev = Inr q"
    and "float_mul q 100 = Fin pc" and "\<bar>pc\<bar> \<le> 8 * 10 ^ 302"
proof -
  define B :: rat where "B = 10 ^ 300"
  define T :: rat where "T = 2 ^ 1024 - 2 ^ 970"
  define x :: rat where "x = of_int (cur - prev) / of_int prev"
  have BT: "800 * B < T" by (simp add: B_def T_def)
  have B0: "0 < B" by (simp add: B_def)
  from c p have "\<bar>cur - prev\<bar> \<le> 2 * 10 ^ 300" by simp
  then have "(of_int \<bar>cur - prev\<bar> :: rat) \<le> of_int (2 * 10 ^ 300)"
    by (simp only: of_int_le_iff)
  then have "(of_int \<bar>cur - prev\<bar> :: rat) \<le> 2 * B" by (simp add: B_def)
  with quotient_bound [OF n, of "cur - prev"] have x: "\<bar>x\<bar> \<le> 2 * B"
    unfolding x_def by (rule order_trans)
  with BT B0 have "\<bar>x\<bar> < T" by linarith
  then obtain q where q: "to_double x = Fin q" and qb: "\<bar>q\<bar> \<le> 2 * \<bar>x\<bar>"
    unfolding T_def by (rule to_double_finite)
  have "\<bar>q * 100\<bar> = \<bar>q\<bar> * 100" by (simp add: abs_mult)
  with qb x have q100: "\<bar>q * 100\<bar> \<le> 400 * B" by linarith
  with BT B0 have "\<bar>q * 100\<bar> < T" by linarith
  then obtain pc where pc: "to_double (q * 100) = Fin pc" and pb: "\<bar>pc\<bar> \<le> 2 * \<bar>q * 100\<bar>"
    unfolding T_def by (rule to_double_finite)
  from pb q100 have "\<bar>pc\<bar> \<le> 800 * B" by linarith
  then have "\<bar>pc\<bar> \<le> 8 * 10 ^ 302" by (simp add: B_def)
  moreover from q have "int_true_div (cur - prev) prev = Inr q"
    by (simp add: int_true_div_def x_def)
  moreover from pc have "float_mul q 100 = Fin pc" by (simp add: float_mul_def)
  ultimately show ?thesis by (intro that)
qed

lemma shares_change_finite:
  assumes "\<bar>cur\<bar> < 10 ^ 300" and "\<bar>prev\<bar> < 10 ^ 300"
  shows "\<exists>sc. shares_change cur prev = Inr sc"
proof (cases "prev = 0")
  case True
  then show ?thesis by (simp add: shares_change_def)
next
  case False
  with assms obtain q pc where "int_true_div (cur - prev) prev = Inr q"
    and "float_mul q 100 = Fin pc"
    by (rule percentage_finite)
  with False show ?thesis by (simp add: shares_change_def)
qed

lemma shares_change_error: "shares_change cur prev = Inl e \<Longrightarrow> e = OverflowError"
  by (auto simp: shares_change_def int_true_div_def split: if_splits pyfloat.splits sum.splits)

lemma shares_change_liquidated:
  assumes "0 < prev"
  shows "shares_change 0 prev = Inr (Fin (- 100))"
proof -
  from assms have "of_int (0 - prev) / of_int prev = (- 1 :: rat)" by simp
  then have "int_true_div (0 - prev) prev = Inr (- 1)"
    by (simp add: int_true_div_def to_double_neg_one)
  with assms show ?thesis
    by (simp add: shares_change_def float_mul_def to_double_neg_numeral)
qed

text \<open>
  What the row shows when the share counts are below \<open>10 ^ 300\<close> in absolute value.
\<close>

lemma change_display_cases:
  assumes "\<bar>cur\<bar> < 10 ^ 300" and "\<bar>prev\<bar> < 10 ^ 300"
    and "shares_change cur prev = Inr sc"
  shows "change_display sc cur prev =
     (if prev = 0 \<and> 0 < cur then (Label NEW, cur)
      else if prev = 0 then (Number (Fin 0), cur - prev)
      else (Number (py_round2 sc), cur - prev))"
    and "prev \<noteq> 0 \<Longrightarrow> \<exists>q pc v. int_true_div (cur - prev) prev = Inr q \<and>
           float_mul q 100 = Fin pc \<and> sc = Fin pc \<and> py_round2 sc = Fin v"
proof -
  show "change_display sc cur prev =
     (if prev = 0 \<and> 0 < cur then (Label NEW, cur)
      else if prev = 0 then (Number (Fin 0), cur - prev)
      else (Number (py_round2 sc), cur - prev))"
  proof (cases "prev = 0")
    case True
    with assms(3) show ?thesis
      by (auto simp: shares_change_def change_display_def split: if_splits)
  next
    case False
    with assms(1,2) obtain q pc where q: "int_true_div (cur - prev) prev = Inr q"
      and pc: "float_mul q 100 = Fin pc"
      by (rule percentage_finite)
    with False assms(3) have sc: "sc = Fin pc" by (simp add: shares_change_def)
    show ?thesis
    proof (cases "cur = 0 \<and> 0 < prev")
      case True
      with shares_change_liquidated [of prev] assms(3) have "sc = Fin (- 100)" by simp
      with False show ?thesis by (simp add: change_display_def)
    next
      case c: False
      with False sc show ?thesis by (auto simp: change_display_def)
    qed
  qed
  assume n: "prev \<noteq> 0"
  with assms(1,2) obtain q pc where q: "int_true_div (cur - prev) prev = Inr q"
    and pc: "float_mul q 100 = Fin pc" and b: "\<bar>pc\<bar> \<le> 8 * 10 ^ 302"
    by (rule percentage_finite)
  with n assms(3) have sc: "sc = Fin pc" by (simp add: shares_change_def)
  from b obtain v where "py_round2 (Fin pc) = Fin v" by (rule py_round2_finite)
  with q pc sc show "\<exists>q pc v. int_true_div (cur - prev) prev = Inr q \<and>
           float_mul q 100 = Fin pc \<and> sc = Fin pc \<and> py_round2 sc = Fin v"
    by blast
qed

text \<open>
  The branch of line 403 asks for a percentage of 0.0 together with current shares 0 and
  previous shares above 0. With previous shares above 0 and current shares 0 the quotient
  is -1 and the percentage is -100: the branch is never taken.
\<close>

lemma liquidation_branch_unreachable:
  assumes "shares_change cur prev = Inr sc"
  shows "fst (change_display sc cur prev) \<noteq> Label LIQUIDATED"
proof (cases "cur = 0 \<and> 0 < prev")
  case True
  with shares_change_liquidated [of prev] assms have "sc = Fin (- 100)" by simp
  then show ?thesis by (simp add: change_display_def NEW_def LIQUIDATED_def)
next
  case False
  then show ?thesis by (auto simp: change_display_def NEW_def LIQUIDATED_def)
qed

section \<open>Properties of the delta engine\<close>

lemma dom_foldl_update:
  "dom (foldl (\<lambda>m r. m(stock_code r \<mapsto> r)) m rows) = dom m \<union> stock_code ` set rows"
  by (induction rows arbitrary: m) auto

lemma dom_build_dict: "dom (build_dict rows) = stock_code ` set rows"
  by (simp add: build_dict_def dom_foldl_update)

text \<open>
  The dictionary of a table holds, for each code, the last row of the table that has the
  code.
\<close>

lemma build_dict_last_holding: "build_dict df code = last_holding df code"
  by (induction df rule: rev_induct) (simp_all add: build_dict_def last_holding_def)

lemma build_dict_last_wins:
  "build_dict (rows @ [r]) (stock_code r) = Some r"
  by (simp add: build_dict_def)

lemma last_holding_member:
  assumes "last_holding df code = Some h"
  shows "h \<in> set df" and "stock_code h = code"
proof -
  from assms obtain i where "i < length (rev df)" and "stock_code (rev df ! i) = code"
    and "h = rev df ! i"
    unfolding last_holding_def find_Some_iff by blast
  then show "stock_code h = code" by simp
  from \<open>i < length (rev df)\<close> have "rev df ! i \<in> set (rev df)" by (rule nth_mem)
  with \<open>h = rev df ! i\<close> show "h \<in> set df" by simp
qed

lemma all_stock_codes_table: "all_stock_codes cur prev = codes_of cur \<union> codes_of prev"
  by (simp add: all_stock_codes_def dom_build_dict codes_of_def)

lemma shares_of_table: "shares_of df code = table_shares df code"
  by (simp add: shares_of_def table_shares_def build_dict_last_holding)

lemma table_shares_moderate:
  assumes "moderate_shares df"
  shows "\<bar>table_shares df code\<bar> < 10 ^ 300"
proof (cases "last_holding df code")
  case None
  then show ?thesis by (simp add: table_shares_def)
next
  case (Some h)
  then have "h \<in> set df" by (rule last_holding_member)
  with assms have "\<bar>shares h\<bar> < 10 ^ 300" by (simp add: moderate_shares_def)
  with Some show ?thesis by (simp add: table_shares_def)
qed

lemma compare_row_fields:
  assumes "compare_row cd pd code = Inr r"
  shows "c_code r = code"
    and "current_shares r = (case cd code of Some h \<Rightarrow> shares h | None \<Rightarrow> 0)"
    and "prev_shares r = (case pd code of Some h \<Rightarrow> shares h | None \<Rightarrow> 0)"
    and "current_weight r = (case cd code of Some h \<Rightarrow> weight h | None \<Rightarrow> 0)"
    and "prev_weight r = (case pd code of Some h \<Rightarrow> weight h | None \<Rightarrow> 0)"
    and "\<exists>sc. shares_change (current_shares r) (prev_shares r) = Inr sc \<and>
           (shares_change_display r, shares_absolute_change r) =
             change_display sc (current_shares r) (prev_shares r)"
    and "weight_change r = py_round2 (float_sub (current_weight r) (prev_weight r))"
    and "code \<in> dom cd \<union> dom pd"
  using assms
  by (auto simp: compare_row_def Let_def split: option.splits prod.splits sum.splits)

lemma compare_row_total:
  assumes "code \<in> dom cd \<union> dom pd"
    and "shares_change (case cd code of Some h \<Rightarrow> shares h | None \<Rightarrow> 0)
           (case pd code of Some h \<Rightarrow> shares h | None \<Rightarrow> 0) = Inr sc"
  shows "\<exists>r. compare_row cd pd code = Inr r"
  using assms
  by (auto simp: compare_row_def Let_def split: option.splits prod.splits sum.splits)

lemma compare_row_error:
  assumes "code \<in> dom cd \<union> dom pd" and "compare_row cd pd code = Inl e"
  shows "e = OverflowError"
  using assms
  by (auto simp: compare_row_def Let_def dest: shares_change_error
      split: option.splits prod.splits sum.splits)

lemma compare_rows_Inr:
  "compare_rows cd pd order = Inr rs \<Longrightarrow>
     list_all2 (\<lambda>code r. compare_row cd pd code = Inr r) order rs"
  by (induction order arbitrary: rs) (auto split: sum.splits)

lemma compare_rows_total:
  assumes "set order \<subseteq> dom cd \<union> dom pd"
    and "\<forall>code \<in> set order. \<exists>sc.
           shares_change (case cd code of Some h \<Rightarrow> shares h | None \<Rightarrow> 0)
             (case pd code of Some h \<Rightarrow> shares h | None \<Rightarrow> 0) = Inr sc"
  shows "\<exists>rs. compare_rows cd pd order = Inr rs"
  using assms
proof (induction order)
  case Nil
  show ?case by simp
next
  case (Cons code order)
  then obtain rs where "compare_rows cd pd order = Inr rs" by auto
  moreover from Cons.prems obtain sc
    where "shares_change (case cd code of Some h \<Rightarrow> shares h | None \<Rightarrow> 0)
             (case pd code of Some h \<Rightarrow> shares h | None \<Rightarrow> 0) = Inr sc"
    by auto
  with Cons.prems(1) obtain r where "compare_row cd pd code = Inr r"
    using compare_row_total [of code cd pd sc] by auto
  ultimately show ?case by simp
qed

lemma compare_rows_error:
  assumes "set order \<subseteq> dom cd \<union> dom pd" and "compare_rows cd pd order = Inl e"
  shows "e = OverflowError"
  using assms
proof (induction order)
  case Nil
  then show ?case by simp
next
  case (Cons code order)
  show ?case
  proof (cases "compare_row cd pd code")
    case (Inl e')
    with Cons.prems(2) have "e' = e" by simp
    with Inl Cons.prems(1) show ?thesis
      using compare_row_error [of code cd pd e] by simp
  next
    case (Inr r)
    with Cons.prems(2) have "compare_rows cd pd order = Inl e"
      by (simp split: sum.splits)
    with Cons.prems(1) show ?thesis by (intro Cons.IH) simp_all
  qed
qed

lemma compare_rows_codes:
  assumes "compare_rows cd pd order = Inr rs"
  shows "map c_code rs = order"
proof -
  have "list_all2 (\<lambda>code r. c_code r = code) order rs"
    using compare_rows_Inr [OF assms]
    by (rule list_all2_mono) (simp add: compare_row_fields(1))
  then show ?thesis
    by (induction rule: list_all2_induct) auto
qed

lemma compare_rows_member:
  assumes "compare_rows cd pd order = Inr rs" and "r \<in> set rs"
  shows "compare_row cd pd (c_code r) = Inr r"
proof -
  have "list_all2 (\<lambda>code r. compare_row cd pd code = Inr r) order rs"
    by (rule compare_rows_Inr [OF assms(1)])
  then have "\<forall>r \<in> set rs. compare_row cd pd (c_code r) = Inr r"
    by (induction rule: list_all2_induct) (auto simp: compare_row_fields(1))
  with assms(2) show ?thesis by blast
qed

lemma set_sort_values: "set (sort_values rs) = set rs"
  by (simp add: sort_values_def)

lemma compare_pcf_data_Inr:
  assumes "compare_pcf_data order cur prev = Inr rows"
  obtains rs where "compare_rows (build_dict cur) (build_dict prev) order = Inr rs"
    and "rs \<noteq> []" and "rows = sort_values rs"
  using assms by (auto simp: compare_pcf_data_def split: sum.splits if_splits)

text \<open>
  A table is returned when the union of the codes is not empty and the share counts are
  below \<open>10 ^ 300\<close> in absolute value. Without that bound the only other outcome is the
  \<open>OverflowError\<close> of the division of line 392.
\<close>

lemma compare_pcf_data_total:
  assumes "set_iteration (all_stock_codes cur prev) order" and "all_stock_codes cur prev \<noteq> {}"
    and "moderate_shares cur" and "moderate_shares prev"
  shows "\<exists>rows. compare_pcf_data order cur prev = Inr rows"
proof -
  from assms(1) have s: "set order = dom (build_dict cur) \<union> dom (build_dict prev)"
    by (simp add: set_iteration_def all_stock_codes_def)
  have "\<exists>sc. shares_change
           (case build_dict cur code of Some h \<Rightarrow> shares h | None \<Rightarrow> 0)
           (case build_dict prev code of Some h \<Rightarrow> shares h | None \<Rightarrow> 0) = Inr sc" for code
    using shares_change_finite [OF table_shares_moderate [OF assms(3), of code]
        table_shares_moderate [OF assms(4), of code]]
    by (simp add: table_shares_def build_dict_last_holding)
  with s obtain rs where rs: "compare_rows (build_dict cur) (build_dict prev) order = Inr rs"
    using compare_rows_total [of order "build_dict cur" "build_dict prev"] by auto
  from assms(1,2) s have "order \<noteq> []" by (auto simp: all_stock_codes_def)
  with compare_rows_codes [OF rs] have "rs \<noteq> []" by auto
  with rs show ?thesis by (simp add: compare_pcf_data_def)
qed

lemma compare_pcf_data_error:
  assumes "set_iteration (all_stock_codes cur prev) order" and "all_stock_codes cur prev \<noteq> {}"
    and "compare_pcf_data order cur prev = Inl e"
  shows "e = OverflowError"
proof (cases "compare_rows (build_dict cur) (build_dict prev) order")
  case (Inl e')
  with assms(3) have "e' = e" by (simp add: compare_pcf_data_def)
  moreover from assms(1) have "set order \<subseteq> dom (build_dict cur) \<union> dom (build_dict prev)"
    by (simp add: set_iteration_def all_stock_codes_def)
  ultimately show ?thesis using Inl by (auto dest: compare_rows_error)
next
  case (Inr rs)
  from assms(1,2) have "order \<noteq> []" by (auto simp: set_iteration_def)
  with compare_rows_codes [OF Inr] have "rs \<noteq> []" by auto
  with Inr assms(3) show ?thesis by (simp add: compare_pcf_data_def)
qed

lemma compare_pcf_data_row:
  assumes "compare_pcf_data order cur prev = Inr rows" and "r \<in> set rows"
  shows "current_shares r = shares_of cur (c_code r)"
    and "prev_shares r = shares_of prev (c_code r)"
    and "current_weight r = weight_of cur (c_code r)"
    and "prev_weight r = weight_of prev (c_code r)"
    and "\<exists>sc. shares_change (current_shares r) (prev_shares r) = Inr sc \<and>
           (shares_change_display r, shares_absolute_change r) =
             change_display sc (current_shares r) (prev_shares r)"
    and "weight_change r = py_round2 (float_sub (current_weight r) (prev_weight r))"
proof -
  from assms(1) obtain rs
    where rs: "compare_rows (build_dict cur) (build_dict prev) order = Inr rs"
      and rows: "rows = sort_values rs"
    by (rule compare_pcf_data_Inr)
  from assms(2) rows have "r \<in> set rs" by (simp add: set_sort_values)
  then have row: "compare_row (build_dict cur) (build_dict prev) (c_code r) = Inr r"
    by (rule compare_rows_member [OF rs])
  show "current_shares r = shares_of cur (c_code r)"
    using compare_row_fields(2) [OF row] by (simp add: shares_of_def)
  show "prev_shares r = shares_of prev (c_code r)"
    using compare_row_fields(3) [OF row] by (simp add: shares_of_def)
  show "current_weight r = weight_of cur (c_code r)"
    using compare_row_fields(4) [OF row] by (simp add: weight_of_def)
  show "prev_weight r = weight_of prev (c_code r)"
    using compare_row_fields(5) [OF row] by (simp add: weight_of_def)
  show "\<exists>sc. shares_change (current_shares r) (prev_shares r) = Inr sc \<and>
           (shares_change_display r, shares_absolute_change r) =
             change_display sc (current_shares r) (prev_shares r)"
    by (rule compare_row_fields(6) [OF row])
  show "weight_change r = py_round2 (float_sub (current_weight r) (prev_weight r))"
    by (rule compare_row_fields(7) [OF row])
qed

lemma compare_pcf_data_codes:
  assumes "compare_pcf_data order cur prev = Inr rows"
  shows "mset (map c_code rows) = mset order"
proof -
  from assms obtain rs
    where rs: "compare_rows (build_dict cur) (build_dict prev) order = Inr rs"
      and rows: "rows = sort_values rs"
    by (rule compare_pcf_data_Inr)
  have "mset rows = mset rs" by (simp add: rows sort_values_def)
  then have "mset (map c_code rows) = mset (map c_code rs)" by (metis mset_map)
  with compare_rows_codes [OF rs] show ?thesis by simp
qed

lemma sort_values_sorted:
  "sorted_wrt (\<lambda>a b. current_weight a > current_weight b \<or>
       (current_weight a = current_weight b \<and> prev_weight a \<ge> prev_weight b))
     (sort_values rs)"
proof -
  have "sorted (map sort_key_desc (sort_values rs))"
    by (simp add: sort_values_def)
  then have "sorted_wrt (\<lambda>a b. sort_key_desc a \<le> sort_key_desc b) (sort_values rs)"
    by (simp add: sorted_map)
  then show ?thesis
    by (rule sorted_wrt_mono_rel [rotated]) (auto simp: sort_key_desc_def less_eq_prod_def)
qed

lemma sort_values_stable:
  "filter (\<lambda>r. current_weight r = w \<and> prev_weight r = p) (sort_values rs) =
   filter (\<lambda>r. current_weight r = w \<and> prev_weight r = p) rs"
proof -
  have eq: "(\<lambda>r. current_weight r = w \<and> prev_weight r = p) = (\<lambda>r. sort_key_desc r = (- w, - p))"
    by (auto simp: sort_key_desc_def)
  show ?thesis
    unfolding eq sort_values_def by (rule sort_key_stable)
qed

lemma filter_unique_code:
  assumes "distinct (map c_code rows)" and "code \<in> set (map c_code rows)"
  shows "\<exists>r. filter (\<lambda>r. c_code r = code) rows = [r]"
  using assms
proof (induction rows)
  case Nil
  then show ?case by simp
next
  case (Cons a rows)
  show ?case
  proof (cases "c_code a = code")
    case True
    from Cons.prems(1) have "c_code a \<notin> c_code ` set rows" by simp
    with True have "\<forall>x \<in> set rows. c_code x \<noteq> code" by (metis imageI)
    then have "filter (\<lambda>r. c_code r = code) rows = []"
      by (simp add: filter_empty_conv)
    with True show ?thesis by simp
  next
    case False
    with Cons show ?thesis by auto
  qed
qed

lemma compare_pcf_data_unique_row:
  assumes "set_iteration (all_stock_codes cur prev) order"
    and "compare_pcf_data order cur prev = Inr rows"
    and "code \<in> all_stock_codes cur prev"
  obtains r where "filter (\<lambda>r. c_code r = code) rows = [r]"
    and "r \<in> set rows" and "c_code r = code"
proof -
  have m: "mset (map c_code rows) = mset order"
    by (rule compare_pcf_data_codes [OF assms(2)])
  from assms(1) have "distinct order" and "set order = all_stock_codes cur prev"
    by (simp_all add: set_iteration_def)
  with m assms(3) have "distinct (map c_code rows)" and "code \<in> set (map c_code rows)"
    by (metis mset_eq_imp_distinct_iff, metis mset_eq_setD)
  then obtain r where r: "filter (\<lambda>r. c_code r = code) rows = [r]"
    using filter_unique_code by blast
  then have "r \<in> set (filter (\<lambda>r. c_code r = code) rows)" by simp
  then have "r \<in> set rows" and "c_code r = code" by auto
  with r show ?thesis by (rule that)
qed

text \<open>
  The row of a code, for tables with share counts below \<open>10 ^ 300\<close> in absolute value:
  there is exactly one, and it holds what lines 390 to 408 compute from the shares of the
  last row with that code in each table.
\<close>

lemma compare_pcf_data_the_row:
  assumes "set_iteration (codes_of cur \<union> codes_of prev) order"
    and "code \<in> codes_of cur \<union> codes_of prev"
    and "moderate_shares cur" and "moderate_shares prev"
  obtains rows r sc where "compare_pcf_data order cur prev = Inr rows"
    and "filter (\<lambda>r. c_code r = code) rows = [r]"
    and "shares_change (table_shares cur code) (table_shares prev code) = Inr sc"
    and "(shares_change_display r, shares_absolute_change r) =
           change_display sc (table_shares cur code) (table_shares prev code)"
proof -
  from assms(1) have it: "set_iteration (all_stock_codes cur prev) order"
    by (simp add: all_stock_codes_table)
  from assms(2) have code: "code \<in> all_stock_codes cur prev"
    by (simp add: all_stock_codes_table)
  then have "all_stock_codes cur prev \<noteq> {}" by auto
  then obtain rows where rows: "compare_pcf_data order cur prev = Inr rows"
    using compare_pcf_data_total [OF it _ assms(3,4)] by auto
  from it rows code obtain r where f: "filter (\<lambda>r. c_code r = code) rows = [r]"
    and r: "r \<in> set rows" and c: "c_code r = code"
    by (rule compare_pcf_data_unique_row)
  have cs: "current_shares r = table_shares cur code"
    and ps: "prev_shares r = table_shares prev code"
    using compare_pcf_data_row(1,2) [OF rows r] c by (simp_all add: shares_of_table)
  from compare_pcf_data_row(5) [OF rows r] obtain sc
    where "shares_change (table_shares cur code) (table_shares prev code) = Inr sc"
      and "(shares_change_display r, shares_absolute_change r) =
           change_display sc (table_shares cur code) (table_shares prev code)"
    unfolding cs ps by blast
  with rows f show ?thesis by (rule that)
qed

text \<open>
  The percentage of \<open>huge\<close> shares against one share: the quotient is a float, its
  product with 100 is not.
\<close>

lemma to_double_huge: "to_double (of_int huge) = Fin (of_int huge)"
  using to_double_exact [of 1 1018] by (simp add: huge_def)

lemma to_double_huge_percent: "to_double (of_int huge * 100) = PInf"
  by (simp add: to_double_def huge_def)

lemma to_double_huge_64: "to_double (of_int huge * 64) = PInf"
  by (simp add: to_double_def huge_def)

lemma shares_change_huge: "shares_change (huge + 1) 1 = Inr PInf"
  by (simp add: shares_change_def int_true_div_def float_mul_def to_double_huge
      to_double_huge_percent)


lemma shares_change_raises: "shares_change (64 * huge + 1) 1 = Inl OverflowError"
proof -
  have "of_int huge * 64 = (64 * of_int huge :: rat)" by simp
  with to_double_huge_64 have "to_double (64 * of_int huge) = PInf" by simp
  then show ?thesis by (simp add: shares_change_def int_true_div_def)
qed

lemma compare_overflow_raises:
  "compare_pcf_data [code_2330] [mk_holding code_2330 (64 * huge + 1) 5]
     [mk_holding code_2330 1 4] = Inl OverflowError"
  by (simp add: compare_pcf_data_def build_dict_def compare_row_def shares_change_raises
      mk_holding_def)

text \<open>
  Claim C2, as stated, fails for a share count beyond the range of the percentage: with
  one share before and \<open>huge + 1\<close> shares now the product of line 392 is infinite, and the
  row shows the sentinel for a new position although the previous shares are not 0.
\<close>

theorem overflow_shows_new:
  "set_iteration (codes_of [mk_holding code_2330 (huge + 1) 5] \<union>
      codes_of [mk_holding code_2330 1 4]) [code_2330] \<and>
   table_shares [mk_holding code_2330 1 4] code_2330 = 1 \<and>
   compare_pcf_data [code_2330] [mk_holding code_2330 (huge + 1) 5]
       [mk_holding code_2330 1 4] =
     Inr [\<lparr>c_code = code_2330, c_name = [84], current_shares = huge + 1, current_weight = 5,
           prev_shares = 1, prev_weight = 4, shares_absolute_change = huge + 1,
           shares_change_display = Label NEW, weight_change = Fin 1\<rparr>]"
  by (simp add: set_iteration_def codes_of_def table_shares_def last_holding_def
      compare_pcf_data_def build_dict_def compare_row_def shares_change_huge
      change_display_def float_sub_def to_double_one sort_values_def mk_holding_def)

text \<open>
  Claim C2, for tables whose share counts are below \<open>10 ^ 300\<close> in absolute value. The
  codes are those of the rows of the two tables, and the shares of a code are those of
  the last row that has it. For every code of the union the comparison has exactly one
  row, and that row shows the sentinel for a new position if and only if the previous
  shares are 0 and the current shares are positive; the absolute change is then the
  current shares. With both sides 0 the row shows the number 0.0.
\<close>

theorem new_sentinel_iff:
  assumes "set_iteration (codes_of cur \<union> codes_of prev) order"
    and "code \<in> codes_of cur \<union> codes_of prev"
    and "moderate_shares cur" and "moderate_shares prev"
  shows "\<exists>rows r. compare_pcf_data order cur prev = Inr rows \<and>
           filter (\<lambda>r. c_code r = code) rows = [r] \<and>
           (shares_change_display r = Label NEW \<longleftrightarrow>
              table_shares prev code = 0 \<and> 0 < table_shares cur code) \<and>
           (shares_change_display r = Label NEW \<longrightarrow>
              shares_absolute_change r = table_shares cur code) \<and>
           (table_shares prev code = 0 \<and> table_shares cur code = 0 \<longrightarrow>
              shares_change_display r = Number (Fin 0))"
proof -
  from assms obtain rows r sc where rows: "compare_pcf_data order cur prev = Inr rows"
    and f: "filter (\<lambda>r. c_code r = code) rows = [r]"
    and sc: "shares_change (table_shares cur code) (table_shares prev code) = Inr sc"
    and d: "(shares_change_display r, shares_absolute_change r) =
           change_display sc (table_shares cur code) (table_shares prev code)"
    by (rule compare_pcf_data_the_row)
  note b = table_shares_moderate [OF assms(3), of code] table_shares_moderate [OF assms(4), of code]
  have "(shares_change_display r = Label NEW \<longleftrightarrow>
              table_shares prev code = 0 \<and> 0 < table_shares cur code) \<and>
           (shares_change_display r = Label NEW \<longrightarrow>
              shares_absolute_change r = table_shares cur code) \<and>
           (table_shares prev code = 0 \<and> table_shares cur code = 0 \<longrightarrow>
              shares_change_display r = Number (Fin 0))"
    using d unfolding change_display_cases(1) [OF b sc] by (auto split: if_splits)
  with rows f show ?thesis by blast
qed

theorem new_sentinel_iff_witness:
  "set_iteration (codes_of [mk_holding code_2330 7 5, mk_holding code_2330 1000 5] \<union>
      codes_of []) [code_2330] \<and>
   code_2330 \<in> codes_of [mk_holding code_2330 7 5, mk_holding code_2330 1000 5] \<union> codes_of [] \<and>
   moderate_shares [mk_holding code_2330 7 5, mk_holding code_2330 1000 5] \<and>
   moderate_shares [] \<and>
   table_shares [mk_holding code_2330 7 5, mk_holding code_2330 1000 5] code_2330 = 1000 \<and>
   (\<exists>rows r. compare_pcf_data [code_2330]
        [mk_holding code_2330 7 5, mk_holding code_2330 1000 5] [] = Inr rows \<and>
      filter (\<lambda>r. c_code r = code_2330) rows = [r] \<and>
      shares_change_display r = Label NEW \<and> shares_absolute_change r = 1000)"
proof -
  let ?cur = "[mk_holding code_2330 7 5, mk_holding code_2330 1000 5]"
  have h1: "set_iteration (codes_of ?cur \<union> codes_of []) [code_2330]"
    by (simp add: set_iteration_def codes_of_def mk_holding_def)
  have h2: "code_2330 \<in> codes_of ?cur \<union> codes_of []"
    by (simp add: codes_of_def mk_holding_def)
  have h3: "moderate_shares ?cur" and h4: "moderate_shares []"
    by (simp_all add: moderate_shares_def mk_holding_def)
  have s: "table_shares [] code_2330 = 0" "table_shares ?cur code_2330 = 1000"
    by (simp_all add: table_shares_def last_holding_def mk_holding_def)
  show ?thesis
    using h1 h2 h3 h4 new_sentinel_iff [OF h1 h2 h3 h4] unfolding s by auto
qed




text \<open>
  Claim C7. Every table that \<open>compare_pcf_data\<close> returns is sorted descending by the
  current weight, ties broken descending by the previous weight, and rows equal on both
  keys keep the order in which the loop produced them. When the union of the codes is not
  empty, a table is returned or the division of line 392 raises \<open>OverflowError\<close>; a
  table is returned whenever the share counts are below \<open>10 ^ 300\<close> in absolute value.
\<close>

theorem sorted_stable:
  assumes "set_iteration (all_stock_codes cur prev) order"
  shows "(all_stock_codes cur prev \<noteq> {} \<longrightarrow>
            (\<exists>rows. compare_pcf_data order cur prev = Inr rows) \<or>
            compare_pcf_data order cur prev = Inl OverflowError) \<and>
         (all_stock_codes cur prev \<noteq> {} \<and> moderate_shares cur \<and> moderate_shares prev \<longrightarrow>
            (\<exists>rows. compare_pcf_data order cur prev = Inr rows)) \<and>
         (\<forall>rows. compare_pcf_data order cur prev = Inr rows \<longrightarrow>
            sorted_wrt (\<lambda>a b. current_weight a > current_weight b \<or>
               (current_weight a = current_weight b \<and> prev_weight a \<ge> prev_weight b)) rows \<and>
            (\<forall>w p. map c_code (filter (\<lambda>r. current_weight r = w \<and> prev_weight r = p) rows) =
                   filter (\<lambda>c. weight_of cur c = w \<and> weight_of prev c = p) order))"
proof (intro conjI allI impI)
  assume n: "all_stock_codes cur prev \<noteq> {}"
  show "(\<exists>rows. compare_pcf_data order cur prev = Inr rows) \<or>
      compare_pcf_data order cur prev = Inl OverflowError"
  proof (cases "compare_pcf_data order cur prev")
    case (Inl e)
    with compare_pcf_data_error [OF assms n] show ?thesis by simp
  next
    case (Inr rows)
    then show ?thesis by simp
  qed
next
  assume "all_stock_codes cur prev \<noteq> {} \<and> moderate_shares cur \<and> moderate_shares prev"
  then show "\<exists>rows. compare_pcf_data order cur prev = Inr rows"
    using compare_pcf_data_total [OF assms] by simp
next
  fix rows
  assume rows: "compare_pcf_data order cur prev = Inr rows"
  then obtain rs
    where rs: "compare_rows (build_dict cur) (build_dict prev) order = Inr rs"
      and sv: "rows = sort_values rs"
    by (rule compare_pcf_data_Inr)
  show "sorted_wrt (\<lambda>a b. current_weight a > current_weight b \<or>
               (current_weight a = current_weight b \<and> prev_weight a \<ge> prev_weight b)) rows"
    unfolding sv by (rule sort_values_sorted)
  fix w p
  let ?P = "\<lambda>r. current_weight r = w \<and> prev_weight r = p"
  let ?Q = "\<lambda>c. weight_of cur c = w \<and> weight_of prev c = p"
  have "\<forall>r \<in> set rs. ?P r = ?Q (c_code r)"
  proof
    fix r assume "r \<in> set rs"
    then have "r \<in> set rows" by (simp add: sv set_sort_values)
    from compare_pcf_data_row(3,4) [OF rows this] show "?P r = ?Q (c_code r)" by simp
  qed
  then have "filter ?P rs = filter (?Q \<circ> c_code) rs"
    by (intro filter_cong) simp_all
  then have "map c_code (filter ?P rs) = filter ?Q (map c_code rs)"
    by (simp add: filter_map)
  also have "map c_code rs = order" by (rule compare_rows_codes [OF rs])
  finally show "map c_code (filter ?P rows) = filter ?Q order"
    by (simp add: sv sort_values_stable)
qed

theorem sorted_stable_witness:
  "set_iteration (all_stock_codes [mk_holding code_2330 10 5, mk_holding code_2317 20 5] [])
     [code_2317, code_2330] \<and>
   all_stock_codes [mk_holding code_2330 10 5, mk_holding code_2317 20 5] [] \<noteq> {} \<and>
   moderate_shares [mk_holding code_2330 10 5, mk_holding code_2317 20 5] \<and>
   moderate_shares [] \<and>
   (\<exists>rows. compare_pcf_data [code_2317, code_2330]
        [mk_holding code_2330 10 5, mk_holding code_2317 20 5] [] = Inr rows \<and>
      sorted_wrt (\<lambda>a b. current_weight a > current_weight b \<or>
         (current_weight a = current_weight b \<and> prev_weight a \<ge> prev_weight b)) rows \<and>
      map c_code (filter (\<lambda>r. current_weight r = 5 \<and> prev_weight r = 0) rows) =
        [code_2317, code_2330])"
proof -
  let ?cur = "[mk_holding code_2330 10 5, mk_holding code_2317 20 5]"
  have h: "set_iteration (all_stock_codes ?cur []) [code_2317, code_2330]"
    by (auto simp: set_iteration_def all_stock_codes_def build_dict_def mk_holding_def
        code_2330_def code_2317_def)
  have n: "all_stock_codes ?cur [] \<noteq> {}"
    by (simp add: all_stock_codes_def build_dict_def)
  have m: "moderate_shares ?cur" and m': "moderate_shares []"
    by (simp_all add: moderate_shares_def mk_holding_def)
  have w: "weight_of ?cur code_2317 = 5" "weight_of ?cur code_2330 = 5"
    "weight_of [] code_2317 = 0" "weight_of [] code_2330 = 0"
    by (simp_all add: weight_of_def build_dict_def mk_holding_def code_2330_def code_2317_def)
  have f: "filter (\<lambda>c. weight_of ?cur c = 5 \<and> weight_of [] c = 0) [code_2317, code_2330] =
      [code_2317, code_2330]"
    by (simp add: w)
  note th = sorted_stable [OF h]
  from n m m' have "all_stock_codes ?cur [] \<noteq> {} \<and> moderate_shares ?cur \<and> moderate_shares []"
    by (intro conjI)
  with th [THEN conjunct2, THEN conjunct1] obtain rows
    where rows: "compare_pcf_data [code_2317, code_2330] ?cur [] = Inr rows"
    by (elim impE exE)
  note r = th [THEN conjunct2, THEN conjunct2, rule_format, OF rows]
  have st: "map c_code (filter (\<lambda>r. current_weight r = 5 \<and> prev_weight r = 0) rows) =
      [code_2317, code_2330]"
    using r [THEN conjunct2, rule_format, of 5 0] by (simp only: f)
  show ?thesis
    by (intro conjI exI [of _ rows])
      (rule h, rule n, rule m, rule m', rule rows, rule r [THEN conjunct1], rule st)
qed

lemma liquidated_row:
  assumes "compare_pcf_data order cur prev = Inr rows" and "r \<in> set rows"
    and "shares_of cur (c_code r) = 0" and "0 < shares_of prev (c_code r)"
  shows "shares_change_display r = Number (Fin (- 100))"
    and "shares_absolute_change r = - shares_of prev (c_code r)"
proof -
  from compare_pcf_data_row(5) [OF assms(1,2)] obtain sc
    where sc: "shares_change 0 (shares_of prev (c_code r)) = Inr sc"
      and d: "(shares_change_display r, shares_absolute_change r) =
        change_display sc 0 (shares_of prev (c_code r))"
    unfolding compare_pcf_data_row(1,2) [OF assms(1,2)] assms(3) by blast
  from sc shares_change_liquidated [OF assms(4)] have "sc = Fin (- 100)" by simp
  with d have "shares_change_display r = Number (py_round2 (Fin (- 100)))"
    and a: "shares_absolute_change r = - shares_of prev (c_code r)"
    by (simp_all add: change_display_def)
  then show "shares_change_display r = Number (Fin (- 100))"
    by (simp add: to_double_neg_numeral)
  from a show "shares_absolute_change r = - shares_of prev (c_code r)" .
qed

text \<open>
  Claim C1. A code that is only in the previous table, with 500 shares: the row shows the
  number -100.0 in the percentage column, not the sentinel for a liquidated position; the
  absolute change is -500.
\<close>

theorem liquidated_shows_number:
  "compare_pcf_data [code_2330] [] [mk_holding code_2330 500 5] =
     Inr [\<lparr>c_code = code_2330, c_name = [84], current_shares = 0, current_weight = 0,
           prev_shares = 500, prev_weight = 5, shares_absolute_change = - 500,
           shares_change_display = Number (Fin (- 100)), weight_change = Fin (- 5)\<rparr>]"
  by (simp add: compare_pcf_data_def build_dict_def compare_row_def shares_change_liquidated
      change_display_def float_sub_def to_double_neg_numeral sort_values_def mk_holding_def)

text \<open>
  The codes of a returned table are the codes of the two inputs, each once.
\<close>

lemma compare_pcf_data_union:
  assumes "set_iteration (all_stock_codes cur prev) order"
    and "compare_pcf_data order cur prev = Inr rows"
  shows "set (map c_code rows) = stock_code ` set cur \<union> stock_code ` set prev"
    and "length rows = card (stock_code ` set cur \<union> stock_code ` set prev)"
    and "distinct (map c_code rows)"
proof -
  have u: "all_stock_codes cur prev = stock_code ` set cur \<union> stock_code ` set prev"
    by (simp add: all_stock_codes_def dom_build_dict)
  from assms(1) have d: "distinct order" and s: "set order = all_stock_codes cur prev"
    by (simp_all add: set_iteration_def)
  have m: "mset (map c_code rows) = mset order"
    by (rule compare_pcf_data_codes [OF assms(2)])
  from m s u show "set (map c_code rows) = stock_code ` set cur \<union> stock_code ` set prev"
    by (metis mset_eq_setD)
  from m d show "distinct (map c_code rows)"
    by (metis mset_eq_imp_distinct_iff)
  from m have "length rows = length order"
    by (metis length_map mset_eq_length)
  also from d have "\<dots> = card (set order)" by (simp add: distinct_card)
  finally show "length rows = card (stock_code ` set cur \<union> stock_code ` set prev)"
    by (simp add: s u)
qed

text \<open>
  Claim C3. For two tables without rows the union of the codes is empty, and
  \<open>compare_pcf_data\<close> raises \<open>KeyError\<close> instead of returning a table of 0 rows.
\<close>

theorem compare_empty_raises:
  "all_stock_codes [] [] = {} \<and> set_iteration (all_stock_codes [] []) [] \<and>
   compare_pcf_data [] [] [] = Inl KeyError"
  by (simp add: all_stock_codes_def build_dict_def set_iteration_def compare_pcf_data_def)

section \<open>Properties of the report writer\<close>

lemma cells_set_fill [simp]: "cells (set_fill f row col ws) = cells ws"
  by (simp add: set_fill_def)

lemma cells_fill_cols: "cells (fold (set_fill f row) cols ws) = cells ws"
  by (induction cols arbitrary: ws) simp_all

lemma fills_fill_cols:
  "fills (fold (set_fill f row) cols ws) (r, c) =
     (if r = row \<and> c \<in> set cols then Some f else fills ws (r, c))"
  by (induction cols arbitrary: ws) (auto simp: set_fill_def)

lemma cells_fill_row [simp]: "cells (fill_row f ncols row ws) = cells ws"
  by (simp add: fill_row_def cells_fill_cols)

lemma fills_fill_row:
  "fills (fill_row f ncols row ws) (r, c) =
     (if r = row \<and> 1 \<le> c \<and> c \<le> ncols then Some f else fills ws (r, c))"
  by (auto simp: fill_row_def fills_fill_cols)

lemma row_fill_cells:
  "cells ws' = cells ws \<Longrightarrow> row_fill ws' pc sc row = row_fill ws pc sc row"
  by (simp add: row_fill_def cell_value_def)

lemma cells_highlight_row [simp]: "cells (highlight_row pc sc ncols row ws) = cells ws"
  by (simp add: highlight_row_def split: option.splits)

lemma cells_highlight_rows: "cells (fold (highlight_row pc sc ncols) rows ws) = cells ws"
  by (induction rows arbitrary: ws) simp_all

lemma fills_highlight_row:
  "fills (highlight_row pc sc ncols row ws) (r, c) =
     (case (if r = row \<and> 1 \<le> c \<and> c \<le> ncols then row_fill ws pc sc row else None) of
        Some f \<Rightarrow> Some f
      | None \<Rightarrow> fills ws (r, c))"
  by (auto simp: highlight_row_def fills_fill_row split: option.splits)

lemma fills_highlight_rows:
  "fills (fold (highlight_row pc sc ncols) rows ws) (r, c) =
     (case (if r \<in> set rows \<and> 1 \<le> c \<and> c \<le> ncols then row_fill ws pc sc r else None) of
        Some f \<Rightarrow> Some f
      | None \<Rightarrow> fills ws (r, c))"
proof (induction rows arbitrary: ws)
  case Nil
  show ?case by simp
next
  case (Cons row rows)
  have eq: "row_fill (highlight_row pc sc ncols row ws) pc sc r = row_fill ws pc sc r"
    by (rule row_fill_cells) simp
  show ?case
    by (auto simp: Cons.IH eq fills_highlight_row split: option.splits)
qed

lemma column_of_change_pct: "column_of (map VStr column_names) COL_CHANGE_PCT = Some 8"
  by (simp add: column_of_def column_names_def COL_CODE_def COL_NAME_def COL_SHARES_def
      COL_WEIGHT_def COL_PREV_SHARES_def COL_PREV_WEIGHT_def COL_SHARE_CHANGE_def
      COL_CHANGE_PCT_def COL_WEIGHT_CHANGE_def)

lemma column_of_share_change: "column_of (map VStr column_names) COL_SHARE_CHANGE = Some 7"
  by (simp add: column_of_def column_names_def COL_CODE_def COL_NAME_def COL_SHARES_def
      COL_WEIGHT_def COL_PREV_SHARES_def COL_PREV_WEIGHT_def COL_SHARE_CHANGE_def
      COL_CHANGE_PCT_def COL_WEIGHT_CHANGE_def)

lemma cell_value_to_excel:
  assumes "i < length rows"
  shows "cell_value (to_excel rows) (i + 2) 8 = cell_of_shown (shares_change_display (rows ! i))"
    and "cell_value (to_excel rows) (i + 2) 7 = VInt (shares_absolute_change (rows ! i))"
  using assms by (auto simp: cell_value_def to_excel_def row_values_def)

lemma row_fill_to_excel:
  assumes "i < length rows"
  shows "row_fill (to_excel rows) (Some 8) (Some 7) (i + 2) =
     (if shares_change_display (rows ! i) = Label NEW then Some new_stock_fill
      else if shares_absolute_change (rows ! i) < 0 then Some negative_change_fill
      else if (case number_of (cell_of_shown (shares_change_display (rows ! i))) of
                 None \<Rightarrow> False | Some x \<Rightarrow> 30 < x)
      then Some high_change_fill
      else None)"
proof -
  have "cell_of_shown d = VStr NEW \<longleftrightarrow> d = Label NEW" for d
  proof (cases d)
    case (Label s)
    then show ?thesis by simp
  next
    case (Number x)
    then show ?thesis by (cases x) (simp_all add: NEW_def)
  qed
  then show ?thesis
    unfolding row_fill_def truthy_def Let_def option.sel option.case
      cell_value_to_excel [OF assms]
    by simp
qed

text \<open>
  Claim C8. For every row of a comparison table and every column of the sheet, the fill of
  the cell is decided by the first rule that matches: the sentinel for a new position in
  the percentage column gives \<open>new_stock_fill\<close>, whatever the absolute change is;
  otherwise a negative absolute change gives \<open>negative_change_fill\<close>; otherwise a number
  above 30 in the percentage column gives \<open>high_change_fill\<close>; otherwise the cell has no
  fill. The sheet has nine columns, and the fill is the same on all of them.
\<close>

theorem highlight_priority:
  assumes "i < length rows" and "1 \<le> col" and "col \<le> 9"
  shows "length (headers_of (to_excel rows)) = 9 \<and>
     fills (save_comparison_result rows) (i + 2, col) =
       (if shares_change_display (rows ! i) = Label NEW then Some new_stock_fill
        else if shares_absolute_change (rows ! i) < 0 then Some negative_change_fill
        else if (case number_of (cell_of_shown (shares_change_display (rows ! i))) of
                   None \<Rightarrow> False | Some x \<Rightarrow> 30 < x)
        then Some high_change_fill
        else None)"
proof -
  from assms(1) have ne: "rows \<noteq> []" by auto
  then have h: "headers_of (to_excel rows) = map VStr column_names"
    by (simp add: headers_of_def to_excel_def column_names_def)
  have n: "length (headers_of (to_excel rows)) = 9"
    by (simp add: h column_names_def)
  have s: "save_comparison_result rows =
      fold (highlight_row (Some 8) (Some 7) 9) [2..<length rows + 2] (to_excel rows)"
    using n by (simp add: save_comparison_result_def Let_def h column_of_change_pct
        column_of_share_change)
  from assms(1) have m: "i + 2 \<in> set [2..<length rows + 2]"
    unfolding set_upt atLeastLessThan_iff by arith
  have z: "fills (to_excel rows) (i + 2, col) = None"
    by (simp add: to_excel_def)
  have "fills (save_comparison_result rows) (i + 2, col) =
      (case row_fill (to_excel rows) (Some 8) (Some 7) (i + 2) of
         Some f \<Rightarrow> Some f | None \<Rightarrow> None)"
    unfolding s fills_highlight_rows using m assms(2,3) z
    by (simp del: add_2_eq_Suc add_2_eq_Suc' set_upt split: option.splits)
  also have "\<dots> = row_fill (to_excel rows) (Some 8) (Some 7) (i + 2)"
    by (simp split: option.splits)
  also note row_fill_to_excel [OF assms(1)]
  finally have "fills (save_comparison_result rows) (i + 2, col) =
      (if shares_change_display (rows ! i) = Label NEW then Some new_stock_fill
       else if shares_absolute_change (rows ! i) < 0 then Some negative_change_fill
       else if (case number_of (cell_of_shown (shares_change_display (rows ! i))) of
                  None \<Rightarrow> False | Some x \<Rightarrow> 30 < x)
       then Some high_change_fill
       else None)" .
  with n show ?thesis by (rule conjI)
qed

lemma header_row_unfilled: "fills (save_comparison_result rows) (1, col) = None"
proof -
  have *: "fills (fold (highlight_row pc sc n) [2..<k] ws) (1, col) = fills ws (1, col)"
    for pc sc n k ws
    by (simp add: fills_highlight_rows)
  have "fills (save_comparison_result rows) (1, col) = fills (to_excel rows) (1, col)"
    unfolding save_comparison_result_def Let_def by (rule *)
  then show ?thesis
    by (simp add: to_excel_def)
qed

theorem highlight_priority_witness:
  "(0::nat) < length [ex_row] \<and> (1::nat) \<le> 9 \<and> (9::nat) \<le> 9 \<and>
   shares_change_display ex_row = Label NEW \<and> shares_absolute_change ex_row < 0 \<and>
   fills (save_comparison_result [ex_row]) (2, 9) = Some new_stock_fill"
proof -
  have a: "(0::nat) < length [ex_row]" and b: "(1::nat) \<le> 9" and c: "(9::nat) \<le> 9"
    by simp_all
  have d: "shares_change_display ex_row = Label NEW" and e: "shares_absolute_change ex_row < 0"
    by (simp_all add: ex_row_def)
  from highlight_priority [OF a b c] d
  have "fills (save_comparison_result [ex_row]) (2, 9) = Some new_stock_fill"
    by (simp add: numeral_2_eq_2)
  with a b c d e show ?thesis by simp
qed

section \<open>Properties of the table extractor\<close>

lemmas eval_defs = is_decimal_def in_ranges_def Nd_ranges_def other_digit_ranges_def
  strip_def is_space_def re_match_4digits_def is_terminal_def first_col_def has_header_def
  HEADER_MARKER_def CASH_MARKER_def TOTAL_MARKER_def COMMA_def PERCENT_def
  isdigit_def py_int_def digit_value_def remove_char_def endswith_def

lemma find_header_Some:
  "find_header rows k = Some i \<Longrightarrow>
     k \<le> i \<and> i - k < length rows \<and> has_header (rows ! (i - k)) \<and>
     (\<forall>j < i - k. \<not> has_header (rows ! j))"
proof (induction rows arbitrary: k)
  case Nil
  then show ?case by simp
next
  case (Cons row rows)
  show ?case
  proof (cases "has_header row")
    case True
    with Cons.prems show ?thesis by simp
  next
    case False
    with Cons.prems have "find_header rows (Suc k) = Some i" by simp
    from Cons.IH [OF this] have ih: "Suc k \<le> i" "i - Suc k < length rows"
      "has_header (rows ! (i - Suc k))" "\<forall>j < i - Suc k. \<not> has_header (rows ! j)"
      by simp_all
    from ih(1) have eq: "i - k = Suc (i - Suc k)" by arith
    have "\<forall>j < i - k. \<not> has_header ((row # rows) ! j)"
    proof (intro allI impI)
      fix j assume "j < i - k"
      then show "\<not> has_header ((row # rows) ! j)"
        using False ih(4) eq by (cases j) auto
    qed
    with ih eq show ?thesis by simp
  qed
qed

lemma find_header_None:
  "find_header rows k = None \<Longrightarrow> \<forall>r \<in> set rows. \<not> has_header r"
  by (induction rows arbitrary: k) (auto split: if_splits)

lemma find_end_Some:
  "find_end rows k = Inr (Some i) \<Longrightarrow>
     k \<le> i \<and> i - k < length rows \<and> terminal_row (rows ! (i - k)) \<and>
     (\<forall>j < i - k. stock_row (rows ! j))"
proof (induction rows arbitrary: k)
  case Nil
  then show ?case by simp
next
  case (Cons row rows)
  from Cons.prems obtain fc where fc: "first_col row = Inr fc"
    by (auto split: sum.splits)
  show ?case
  proof (cases "is_terminal fc")
    case True
    with Cons.prems fc show ?thesis by (simp add: terminal_row_def)
  next
    case False
    with Cons.prems fc have "find_end rows (Suc k) = Inr (Some i)" by simp
    from Cons.IH [OF this] have ih: "Suc k \<le> i" "i - Suc k < length rows"
      "terminal_row (rows ! (i - Suc k))" "\<forall>j < i - Suc k. stock_row (rows ! j)"
      by simp_all
    from ih(1) have eq: "i - k = Suc (i - Suc k)" by arith
    from False fc have sr: "stock_row row" by (simp add: stock_row_def)
    have "\<forall>j < i - k. stock_row ((row # rows) ! j)"
    proof (intro allI impI)
      fix j assume "j < i - k"
      then show "stock_row ((row # rows) ! j)"
        using sr ih(4) eq by (cases j) auto
    qed
    with ih eq show ?thesis by simp
  qed
qed

lemma find_end_None:
  "find_end rows k = Inr None \<Longrightarrow> \<forall>r \<in> set rows. stock_row r"
proof (induction rows arbitrary: k)
  case Nil
  show ?case by simp
next
  case (Cons row rows)
  from Cons.prems obtain fc where fc: "first_col row = Inr fc"
    by (auto split: sum.splits)
  with Cons.prems have nt: "\<not> is_terminal fc" and "find_end rows (Suc k) = Inr None"
    by (auto split: if_splits)
  from Cons.IH [OF this(2)] nt fc show ?case
    by (simp add: stock_row_def)
qed


lemma drop_take_range:
  assumes "a \<le> t" and "t \<le> length xs"
  shows "take (t - a) (drop a xs) = map (\<lambda>i. xs ! i) [a..<t]"
proof (rule nth_equalityI)
  from assms show "length (take (t - a) (drop a xs)) = length (map (\<lambda>i. xs ! i) [a..<t])"
    by simp
next
  fix i assume "i < length (take (t - a) (drop a xs))"
  with assms have i: "i < t - a" by simp
  with assms have "take (t - a) (drop a xs) ! i = xs ! (a + i)" by simp
  also from i have "\<dots> = map (\<lambda>i. xs ! i) [a..<t] ! i" by simp
  finally show "take (t - a) (drop a xs) ! i = map (\<lambda>i. xs ! i) [a..<t] ! i" .
qed

lemma drop_nth_shift:
  assumes "a \<le> i" and "i < length xs"
  shows "drop a xs ! (i - a) = xs ! i" and "i - a < length (drop a xs)"
  using assms by simp_all


lemma stock_rows_range:
  assumes "stock_rows df = Inr rows"
  shows "\<exists>h t. h < length df \<and> has_header (df ! h) \<and> (\<forall>i < h. \<not> has_header (df ! i)) \<and>
           h < t \<and> t \<le> length df \<and>
           (\<forall>i. h < i \<and> i < t \<longrightarrow> stock_row (df ! i)) \<and>
           (t < length df \<longrightarrow> terminal_row (df ! t)) \<and>
           rows = map (\<lambda>i. df ! i) [Suc h..<t]"
proof -
  from assms obtain h where h: "find_header df 0 = Some h"
    by (cases "find_header df 0") (simp_all add: stock_rows_def)
  from find_header_Some [OF h]
  have h1: "h < length df" and h2: "has_header (df ! h)"
    and h3: "\<forall>i < h. \<not> has_header (df ! i)"
    by simp_all
  from assms h obtain found where found: "find_end (drop (Suc h) df) (Suc h) = Inr found"
    by (cases "find_end (drop (Suc h) df) (Suc h)") (simp_all add: stock_rows_def)
  define t where "t = (case found of None \<Rightarrow> length df | Some i \<Rightarrow> i)"
  from assms h found have rows: "rows = take (t - Suc h) (drop (Suc h) df)"
    by (simp add: stock_rows_def t_def)
  have t: "h < t \<and> t \<le> length df \<and> (\<forall>i. h < i \<and> i < t \<longrightarrow> stock_row (df ! i)) \<and>
           (t < length df \<longrightarrow> terminal_row (df ! t))"
  proof -
    show ?thesis
    proof (cases found)
      case None
      with found have all: "\<forall>r \<in> set (drop (Suc h) df). stock_row r"
        using find_end_None by blast
      have "\<forall>i. h < i \<and> i < length df \<longrightarrow> stock_row (df ! i)"
      proof (intro allI impI)
        fix i assume i: "h < i \<and> i < length df"
        then have a: "Suc h \<le> i" and b: "i < length df" by simp_all
        from drop_nth_shift(2) [OF a b]
        have "drop (Suc h) df ! (i - Suc h) \<in> set (drop (Suc h) df)" by (rule nth_mem)
        with all have "stock_row (drop (Suc h) df ! (i - Suc h))" by blast
        then show "stock_row (df ! i)" by (simp only: drop_nth_shift(1) [OF a b])
      qed
      with None h1 show ?thesis by (simp add: t_def)
    next
      case (Some e)
      with found have "find_end (drop (Suc h) df) (Suc h) = Inr (Some e)" by simp
      from find_end_Some [OF this]
      have e1: "Suc h \<le> e" and e2: "e - Suc h < length (drop (Suc h) df)"
        and e3: "terminal_row (drop (Suc h) df ! (e - Suc h))"
        and e4: "\<forall>j < e - Suc h. stock_row (drop (Suc h) df ! j)"
        by simp_all
      from e1 e2 have e5: "e < length df" by simp
      from e3 have e6: "terminal_row (df ! e)"
        by (simp only: drop_nth_shift(1) [OF e1 e5])
      have "\<forall>i. h < i \<and> i < e \<longrightarrow> stock_row (df ! i)"
      proof (intro allI impI)
        fix i assume i: "h < i \<and> i < e"
        then have a: "Suc h \<le> i" and b: "i < length df" using e5 by simp_all
        from i have "i - Suc h < e - Suc h" by arith
        with e4 have "stock_row (drop (Suc h) df ! (i - Suc h))" by blast
        then show "stock_row (df ! i)" by (simp only: drop_nth_shift(1) [OF a b])
      qed
      with Some e1 e5 e6 show ?thesis by (simp add: t_def)
    qed
  qed
  from t have t1: "h < t" and t2: "t \<le> length df"
    and t3: "\<forall>i. h < i \<and> i < t \<longrightarrow> stock_row (df ! i)"
    and t4: "t < length df \<longrightarrow> terminal_row (df ! t)"
    by (rule conjunct1, rule conjunct2 [THEN conjunct1],
        rule conjunct2 [THEN conjunct2, THEN conjunct1],
        rule conjunct2 [THEN conjunct2, THEN conjunct2])
  from t1 have "Suc h \<le> t" by simp
  from drop_take_range [OF this t2] rows
  have r: "rows = map (\<lambda>i. df ! i) [Suc h..<t]" by simp
  show ?thesis
    by (intro exI [of _ h] exI [of _ t] conjI) (fact h1 h2 h3 t1 t2 t3 t4 r)+
qed


lemma strip_last_not_space:
  assumes "strip s \<noteq> []"
  shows "\<not> is_space (last (strip s))"
proof -
  let ?d = "dropWhile is_space (rev (dropWhile is_space s))"
  from assms have ne: "?d \<noteq> []" by (simp add: strip_def)
  then have "\<not> is_space (hd ?d)" by (rule hd_dropWhile)
  moreover from ne have "last (strip s) = hd ?d" by (simp add: strip_def last_rev)
  ultimately show ?thesis by simp
qed

lemma is_space_line_feed: "is_space 10"
  by (simp add: is_space_def)

lemma re_match_strip:
  assumes "re_match_4digits (strip s)"
  shows "length (strip s) = 4" and "list_all is_decimal (strip s)"
proof -
  show len: "length (strip s) = 4"
  proof (rule ccontr)
    assume "length (strip s) \<noteq> 4"
    with assms have five: "length (strip s) = 5" and lf: "strip s ! 4 = 10"
      by (auto simp: re_match_4digits_def)
    from five have ne: "strip s \<noteq> []" by auto
    from five lf have "last (strip s) = 10" by (simp add: last_conv_nth ne)
    with strip_last_not_space [OF ne] is_space_line_feed show False by simp
  qed
  from assms len show "list_all is_decimal (strip s)"
    by (simp add: re_match_4digits_def)
qed

lemma stock_row_first_cell:
  assumes "stock_row row"
  obtains s cells where "row = Some s # cells" and "\<not> is_terminal (strip s)"
    and "length (strip s) = 4" and "list_all is_decimal (strip s)"
proof -
  from assms obtain c cells where row: "row = c # cells"
    by (cases row) (simp_all add: stock_row_def first_col_def)
  from assms row obtain s where c: "c = Some s"
    by (cases c) (simp_all add: stock_row_def first_col_def is_terminal_def)
  from assms row c have nt: "\<not> is_terminal (strip s)"
    by (simp add: stock_row_def first_col_def)
  then have "re_match_4digits (strip s)" by (simp add: is_terminal_def)
  from re_match_strip [OF this] row c nt show ?thesis by (intro that) simp_all
qed

lemma parse_row_skip:
  assumes "\<not> (4 \<le> length row \<and> row ! 0 \<noteq> None)"
  shows "parse_row f row = Inr None"
  unfolding parse_row_def using assms by (rule if_not_P)

lemma parse_row_Some:
  assumes "parse_row f row = Inr (Some h)"
  shows "4 \<le> length row"
    and "\<exists>s. row ! 0 = Some s \<and> stock_code h = strip s"
    and "stock_name h = (case row ! 1 of None \<Rightarrow> [] | Some s \<Rightarrow> strip s)"
    and "let t = remove_char COMMA (case row ! 2 of None \<Rightarrow> [48] | Some s \<Rightarrow> strip s)
         in if isdigit t then py_int t = Inr (shares h) else shares h = 0"
    and "let w = (case row ! 3 of None \<Rightarrow> [48, 37] | Some s \<Rightarrow> strip s)
         in if endswith w PERCENT then f (remove_char PERCENT w) = Inr (weight h)
            else weight h = 0"
  using assms
  by (auto simp: parse_row_def Let_def split: if_splits sum.splits)

lemma parse_row_None:
  assumes "parse_row f row = Inr None"
  shows "\<not> (4 \<le> length row \<and> row ! 0 \<noteq> None)"
  using assms
  by (auto simp: parse_row_def Let_def split: if_splits sum.splits)

lemma extract_rows_kept:
  "extract_rows f rows = Inr table \<Longrightarrow>
     list_all2 (\<lambda>row h. parse_row f row = Inr (Some h))
       (filter (\<lambda>row. 4 \<le> length row \<and> row ! 0 \<noteq> None) rows) table"
proof (induction rows arbitrary: table)
  case Nil
  then show ?case by simp
next
  case (Cons row rows)
  from Cons.prems obtain x where x: "parse_row f row = Inr x"
    by (cases "parse_row f row") simp_all
  with Cons.prems obtain hs where hs: "extract_rows f rows = Inr hs"
    by (cases "extract_rows f rows") simp_all
  note ih = Cons.IH [OF hs]
  show ?case
  proof (cases x)
    case None
    with x have "parse_row f row = Inr None" by simp
    then have "\<not> (4 \<le> length row \<and> row ! 0 \<noteq> None)" by (rule parse_row_None)
    moreover from Cons.prems x hs None have "table = hs" by simp
    ultimately show ?thesis using ih by auto
  next
    case (Some h)
    with x have p: "parse_row f row = Inr (Some h)" by simp
    have "4 \<le> length row \<and> row ! 0 \<noteq> None"
      using parse_row_Some(1,2) [OF p] by auto
    moreover from Cons.prems x hs Some have "table = h # hs" by simp
    ultimately show ?thesis using ih p by auto
  qed
qed

lemma parse_pcf_excel_Inr:
  assumes "parse_pcf_excel f df = Inr table"
  obtains rows where "stock_rows df = Inr rows" and "extract_rows f rows = Inr table"
  using assms by (cases "stock_rows df") (simp_all add: parse_pcf_excel_def)

lemma stock_rows_all_stock:
  assumes "stock_rows df = Inr rows" and "row \<in> set rows"
  shows "stock_row row"
proof -
  from stock_rows_range [OF assms(1)] obtain h t
    where t3: "\<forall>i. h < i \<and> i < t \<longrightarrow> stock_row (df ! i)"
      and r: "rows = map (\<lambda>i. df ! i) [Suc h..<t]"
    by blast
  from assms(2) r obtain i where "row = df ! i" and "Suc h \<le> i" and "i < t"
    by auto
  with t3 show ?thesis by simp
qed

lemma list_all2_left:
  "list_all2 P xs ys \<Longrightarrow> \<forall>x \<in> set xs. R x \<Longrightarrow> list_all2 (\<lambda>x y. P x y \<and> R x) xs ys"
  by (induction rule: list_all2_induct) simp_all

lemma extract_rows_stock:
  assumes "stock_rows df = Inr rows" and "extract_rows f rows = Inr table"
  shows "list_all2 (\<lambda>row h. parse_row f row = Inr (Some h) \<and> stock_row row)
           (filter (\<lambda>row. 4 \<le> length row) rows) table"
proof -
  have "filter (\<lambda>row. 4 \<le> length row \<and> row ! 0 \<noteq> None) rows =
      filter (\<lambda>row. 4 \<le> length row) rows"
  proof (rule filter_cong [OF refl])
    fix row assume "row \<in> set rows"
    with assms(1) have "stock_row row" by (rule stock_rows_all_stock)
    then obtain s cells where "row = Some s # cells" by (rule stock_row_first_cell)
    then show "(4 \<le> length row \<and> row ! 0 \<noteq> None) = (4 \<le> length row)" by simp
  qed
  with extract_rows_kept [OF assms(2)]
  have "list_all2 (\<lambda>row h. parse_row f row = Inr (Some h))
           (filter (\<lambda>row. 4 \<le> length row) rows) table"
    by simp
  moreover have "\<forall>row \<in> set (filter (\<lambda>row. 4 \<le> length row) rows). stock_row row"
    using stock_rows_all_stock [OF assms(1)] by simp
  ultimately show ?thesis by (rule list_all2_left)
qed

lemma parsed_stock_code:
  assumes "parse_row f row = Inr (Some h)" and "stock_row row"
  shows "\<exists>s. row ! 0 = Some s \<and> stock_code h = strip s \<and> \<not> is_terminal (strip s) \<and>
           length (strip s) = 4 \<and> list_all is_decimal (strip s)"
proof -
  from assms(2) obtain s cells where row: "row = Some s # cells"
    and nt: "\<not> is_terminal (strip s)" and len: "length (strip s) = 4"
    and dec: "list_all is_decimal (strip s)"
    by (rule stock_row_first_cell)
  from parse_row_Some(2) [OF assms(1)] row have "stock_code h = strip s" by simp
  with row nt len dec show ?thesis by simp
qed

text \<open>
  Claim C10. Every holding of a table that \<open>parse_pcf_excel\<close> returns has a code that
  matches the pattern of four decimal digits: it has exactly four characters, all decimal
  digits, so it is not empty and has neither the cash nor the total marker in it.
\<close>

theorem codes_match_pattern:
  assumes "parse_pcf_excel f df = Inr table" and "h \<in> set table"
  shows "re_match_4digits (stock_code h) \<and> length (stock_code h) = 4 \<and>
         list_all is_decimal (stock_code h) \<and> stock_code h \<noteq> [] \<and>
         \<not> contains (stock_code h) CASH_MARKER \<and> \<not> contains (stock_code h) TOTAL_MARKER"
proof -
  from assms(1) obtain rows where rows: "stock_rows df = Inr rows"
    and ext: "extract_rows f rows = Inr table"
    by (rule parse_pcf_excel_Inr)
  note all2 = extract_rows_stock [OF rows ext]
  from assms(2) obtain i where i: "i < length table" and hi: "table ! i = h"
    by (auto simp: in_set_conv_nth)
  from all2 i have "parse_row f (filter (\<lambda>row. 4 \<le> length row) rows ! i) = Inr (Some (table ! i))
      \<and> stock_row (filter (\<lambda>row. 4 \<le> length row) rows ! i)"
    by (simp add: list_all2_conv_all_nth)
  with hi obtain row where "parse_row f row = Inr (Some h)" and "stock_row row" by blast
  from parsed_stock_code [OF this] obtain s where "stock_code h = strip s"
    and "\<not> is_terminal (strip s)" and "length (strip s) = 4" and "list_all is_decimal (strip s)"
    by blast
  then show ?thesis by (simp add: is_terminal_def)
qed

text \<open>
  Claim C5, amended. The table has one holding for each row of the scanned range that has
  at least four cells, missing or not, in the order of the rows; the other rows are left
  out without an error. The first cell of such a row is never missing; the code is its
  stripped text and the name the stripped text of cell 1, empty when that cell is
  missing. The shares are 0 when the text of cell 2 without its commas is not all digits,
  and the number it denotes otherwise ("0" stands for a missing cell). The weight is 0.0
  when the text of cell 3 does not end with a percent sign, and otherwise the float of
  that text with every percent sign removed ("0%" stands for a missing cell).
\<close>

theorem rows_parsed:
  assumes "stock_rows df = Inr rows" and "parse_pcf_excel f df = Inr table"
  shows "list_all2
           (\<lambda>row h.
              (\<exists>s. row ! 0 = Some s \<and> stock_code h = strip s \<and> stock_code h \<noteq> []) \<and>
              stock_name h = (case row ! 1 of None \<Rightarrow> [] | Some s \<Rightarrow> strip s) \<and>
              (let t = remove_char COMMA (case row ! 2 of None \<Rightarrow> [48] | Some s \<Rightarrow> strip s)
               in if isdigit t then py_int t = Inr (shares h) else shares h = 0) \<and>
              (let w = (case row ! 3 of None \<Rightarrow> [48, 37] | Some s \<Rightarrow> strip s)
               in if endswith w PERCENT then f (remove_char PERCENT w) = Inr (weight h)
                  else weight h = 0))
           (filter (\<lambda>row. 4 \<le> length row) rows) table"
proof -
  from assms have ext: "extract_rows f rows = Inr table"
    by (simp add: parse_pcf_excel_def)
  show ?thesis
  proof (rule list_all2_mono [OF extract_rows_stock [OF assms(1) ext]])
    fix row h
    assume a: "parse_row f row = Inr (Some h) \<and> stock_row row"
    then have p: "parse_row f row = Inr (Some h)" and sr: "stock_row row" by simp_all
    from parsed_stock_code [OF p sr]
    have "\<exists>s. row ! 0 = Some s \<and> stock_code h = strip s \<and> stock_code h \<noteq> []"
      by auto
    with parse_row_Some(3,4,5) [OF p]
    show "(\<exists>s. row ! 0 = Some s \<and> stock_code h = strip s \<and> stock_code h \<noteq> []) \<and>
              stock_name h = (case row ! 1 of None \<Rightarrow> [] | Some s \<Rightarrow> strip s) \<and>
              (let t = remove_char COMMA (case row ! 2 of None \<Rightarrow> [48] | Some s \<Rightarrow> strip s)
               in if isdigit t then py_int t = Inr (shares h) else shares h = 0) \<and>
              (let w = (case row ! 3 of None \<Rightarrow> [48, 37] | Some s \<Rightarrow> strip s)
               in if endswith w PERCENT then f (remove_char PERCENT w) = Inr (weight h)
                  else weight h = 0)"
      by (intro conjI)
  qed
qed


lemma ex_sheet_header: "find_header ex_sheet 0 = Some 3"
  by (simp add: ex_sheet_def ex_stock_def ex_codes_def eval_defs)


lemma ex_grid_rows: "stock_rows ex_grid = Inr [ex_grid ! 2, ex_grid ! 3]"
  by (simp add: stock_rows_def ex_grid_def eval_defs)

lemma ex_grid_parse:
  "parse_pcf_excel float_of_plain ex_grid =
     Inr [\<lparr>stock_code = code_2330, stock_name = [84], shares = 1000, weight = 21 / 4\<rparr>,
          \<lparr>stock_code = code_2317, stock_name = [], shares = 20, weight = 0\<rparr>]"
  by (simp add: parse_pcf_excel_def ex_grid_rows)
     (simp add: ex_grid_def parse_row_def float_of_plain_def eval_defs Let_def
        code_2330_def code_2317_def)

text \<open>
  Claim C5 as it is written fails: the row of the stock "2317" has three populated cells
  (its name is missing), it is in the scanned range, and the table has a holding for it.
\<close>

theorem gate_counts_missing_cells:
  "populated_cells (ex_grid ! 3) = 3 \<and>
   stock_rows ex_grid = Inr [ex_grid ! 2, ex_grid ! 3] \<and>
   parse_pcf_excel float_of_plain ex_grid =
     Inr [\<lparr>stock_code = code_2330, stock_name = [84], shares = 1000, weight = 21 / 4\<rparr>,
          \<lparr>stock_code = code_2317, stock_name = [], shares = 20, weight = 0\<rparr>]"
proof -
  have "populated_cells (ex_grid ! 3) = 3"
    by (simp add: populated_cells_def ex_grid_def)
  with ex_grid_rows ex_grid_parse show ?thesis by simp
qed



lemma stock_rows_no_header:
  "\<forall>row \<in> set df. \<not> has_header row \<Longrightarrow> parse_pcf_excel f df = Inl ValueError"
proof -
  assume a: "\<forall>row \<in> set df. \<not> has_header row"
  have "find_header df 0 = None"
  proof (cases "find_header df 0")
    case None
    then show ?thesis .
  next
    case (Some h)
    from find_header_Some [OF Some] a show ?thesis by auto
  qed
  then show ?thesis by (simp add: parse_pcf_excel_def stock_rows_def)
qed










theorem rows_parsed_witness:
  "stock_rows ex_grid = Inr [ex_grid ! 2, ex_grid ! 3] \<and>
   parse_pcf_excel float_of_plain ex_grid =
     Inr [\<lparr>stock_code = code_2330, stock_name = [84], shares = 1000, weight = 21 / 4\<rparr>,
          \<lparr>stock_code = code_2317, stock_name = [], shares = 20, weight = 0\<rparr>] \<and>
   list_all2
     (\<lambda>row h.
        (\<exists>s. row ! 0 = Some s \<and> stock_code h = strip s \<and> stock_code h \<noteq> []) \<and>
        stock_name h = (case row ! 1 of None \<Rightarrow> [] | Some s \<Rightarrow> strip s) \<and>
        (let t = remove_char COMMA (case row ! 2 of None \<Rightarrow> [48] | Some s \<Rightarrow> strip s)
         in if isdigit t then py_int t = Inr (shares h) else shares h = 0) \<and>
        (let w = (case row ! 3 of None \<Rightarrow> [48, 37] | Some s \<Rightarrow> strip s)
         in if endswith w PERCENT then float_of_plain (remove_char PERCENT w) = Inr (weight h)
            else weight h = 0))
     (filter (\<lambda>row. 4 \<le> length row) [ex_grid ! 2, ex_grid ! 3])
     [\<lparr>stock_code = code_2330, stock_name = [84], shares = 1000, weight = 21 / 4\<rparr>,
      \<lparr>stock_code = code_2317, stock_name = [], shares = 20, weight = 0\<rparr>]"
  using ex_grid_rows ex_grid_parse rows_parsed [OF ex_grid_rows ex_grid_parse]
  by (intro conjI)

theorem codes_match_pattern_witness:
  "parse_pcf_excel float_of_plain ex_grid =
     Inr [\<lparr>stock_code = code_2330, stock_name = [84], shares = 1000, weight = 21 / 4\<rparr>,
          \<lparr>stock_code = code_2317, stock_name = [], shares = 20, weight = 0\<rparr>] \<and>
   length code_2317 = 4 \<and> re_match_4digits code_2317 \<and> list_all is_decimal code_2317 \<and>
   \<not> contains code_2317 CASH_MARKER \<and> \<not> contains code_2317 TOTAL_MARKER"
proof -
  let ?h = "\<lparr>stock_code = code_2317, stock_name = [], shares = 20, weight = 0\<rparr>"
  have m: "?h \<in> set [\<lparr>stock_code = code_2330, stock_name = [84], shares = 1000,
      weight = 21 / 4\<rparr>, ?h]"
    by simp
  from codes_match_pattern [OF ex_grid_parse m] ex_grid_parse show ?thesis
    by simp
qed

section \<open>Properties of retrieval and the driver\<close>

lemma skip_weekend_bounds: "p - 2 \<le> skip_weekend p \<and> skip_weekend p \<le> p"
proof -
  have "weekday p < 5 \<or> weekday p = 5 \<or> weekday p = 6"
    unfolding weekday_def by presburger
  then consider "weekday p < 5" | "weekday p = 5" | "weekday p = 6"
    by blast
  then show ?thesis
  proof cases
    case 1
    then show ?thesis by (simp add: skip_weekend.simps [of p])
  next
    case 2
    then have "weekday (p - 1) = 4" unfolding weekday_def by presburger
    with 2 show ?thesis
      by (simp add: skip_weekend.simps [of p] skip_weekend.simps [of "p - 1"])
  next
    case 3
    then have "weekday (p - 1) = 5" and "weekday (p - 2) = 4"
      unfolding weekday_def by presburger+
    with 3 show ?thesis
      by (simp add: skip_weekend.simps [of p] skip_weekend.simps [of "p - 1"]
          skip_weekend.simps [of "p - 2"])
  qed
qed

lemma skip_weekend_weekday: "weekday (skip_weekend p) < 5"
  by (induction p rule: skip_weekend.induct) (simp add: skip_weekend.simps)

lemma get_previous_business_day_ok:
  assumes "2 \<le> d"
  obtains p where "get_previous_business_day d = Inr p" and "d - 3 \<le> p" and "p < d"
proof -
  from skip_weekend_bounds [of "d - 1"]
  have "d - 3 \<le> skip_weekend (d - 1)" and "skip_weekend (d - 1) < d" by simp_all
  moreover from assms have "get_previous_business_day d = Inr (skip_weekend (d - 1))"
    by (simp add: get_previous_business_day_def)
  ultimately show ?thesis using that by blast
qed

lemma download_failed:
  assumes "responses w = [] \<or> failed (hd (responses w))"
  obtains w' where "download_pcf_excel fund roc w = (None, w')"
    and "files w' = files w" and "console w' = console w"
    and "responses w' = tl (responses w)"
  using assms
  by (cases "responses w")
     (auto simp: download_pcf_excel_def failed_def Let_def split: sum.splits)

lemma download_ok:
  assumes "responses w = r # rs" and "\<not> failed r"
  obtains content w' where "download_pcf_excel fund roc w = (Some content, w')"
    and "files w' = files w" and "console w' = console w" and "responses w' = rs"
  using assms
  by (auto simp: download_pcf_excel_def failed_def Let_def split: sum.splits)

lemma find_previous_exhausted:
  assumes "\<forall>r \<in> set (take n (responses w)). failed r" and "3 * int n \<le> cur + 1"
  shows "\<exists>w'. find_previous lib n fund cur w = (Inr None, w') \<and> files w' = files w \<and>
           console w' = console w @ [Exhausted]"
  using assms
proof (induction n arbitrary: cur w)
  case 0
  show ?case by simp
next
  case (Suc n)
  from Suc.prems(2) have "2 \<le> cur" by simp
  then obtain p where p: "get_previous_business_day cur = Inr p" and lo: "cur - 3 \<le> p"
    by (rule get_previous_business_day_ok)
  from Suc.prems(1) have "responses w = [] \<or> failed (hd (responses w))"
    by (cases "responses w") simp_all
  then obtain w1 where d: "download_pcf_excel fund (date_to_roc_format lib p) w = (None, w1)"
    and f1: "files w1 = files w" and c1: "console w1 = console w"
    and r1: "responses w1 = tl (responses w)"
    by (rule download_failed)
  from Suc.prems(1) r1 have a: "\<forall>r \<in> set (take n (responses w1)). failed r"
    by (cases "responses w") simp_all
  from Suc.prems(2) lo have b: "3 * int n \<le> p + 1" by simp
  from Suc.IH [OF a b] obtain w' where "find_previous lib n fund p w1 = (Inr None, w')"
    and "files w' = files w1" and "console w' = console w1 @ [Exhausted]"
    by blast
  with p d f1 c1 show ?case by simp
qed

lemma main_current_unavailable:
  assumes "responses w = [] \<or> failed (hd (responses w))"
  shows "fst (main lib date fund w) = 1" and "files (snd (main lib date fund w)) = files w"
proof -
  from assms obtain w1
    where "download_pcf_excel fund (date_to_roc_format lib date) w = (None, w1)"
      and "files w1 = files w"
    by (rule download_failed)
  then show "fst (main lib date fund w) = 1"
    and "files (snd (main lib date fund w)) = files w"
    by (simp_all add: main_def process_def)
qed

lemma main_no_previous:
  assumes "responses w = r # rs" and "\<not> failed r"
    and "\<forall>x \<in> set (take 10 rs). failed x" and "29 \<le> date"
  shows "fst (main lib date fund w) = 0"
    and "files (snd (main lib date fund w)) = files w"
    and "console (snd (main lib date fund w)) =
           console w @ [Exhausted, NoPreviousFile, NotProduced]"
proof -
  from assms(1,2) obtain content w1
    where d: "download_pcf_excel fund (date_to_roc_format lib date) w = (Some content, w1)"
      and f1: "files w1 = files w" and c1: "console w1 = console w"
      and r1: "responses w1 = rs"
    by (rule download_ok)
  from assms(3) r1 have a: "\<forall>x \<in> set (take 10 (responses w1)). failed x" by simp
  from assms(4) have b: "3 * int 10 \<le> date + 1" by simp
  from find_previous_exhausted [OF a b] obtain w2
    where p: "find_and_download_previous_day lib fund date w1 = (Inr None, w2)"
      and f2: "files w2 = files w1" and c2: "console w2 = console w1 @ [Exhausted]"
    unfolding find_and_download_previous_day_def by blast
  from d p f1 f2 c1 c2 show "fst (main lib date fund w) = 0"
    and "files (snd (main lib date fund w)) = files w"
    and "console (snd (main lib date fund w)) =
           console w @ [Exhausted, NoPreviousFile, NotProduced]"
    by (simp_all add: main_def process_def)
qed

text \<open>
  When both files are retrieved and the analysis succeeds, the report is the one file that
  is written and its path is returned.
\<close>

lemma process_writes_report:
  assumes "responses w = r # r' # rs" and "\<not> failed r" and "\<not> failed r'" and "2 \<le> date"
  shows "\<exists>c c' w2. r = Inr c \<and> r' = Inr c' \<and>
           process lib date fund w =
             (case analyse lib date fund c c' of
                Inl e \<Rightarrow> (Inr None, w2\<lparr>console := console w2 @ [AnalysisFailed e]\<rparr>)
              | Inr (path, sheet) \<Rightarrow>
                  (Inr (Some path), w2\<lparr>files := files w2 @ [(path, sheet)]\<rparr>)) \<and>
           files w2 = files w \<and> console w2 = console w"
proof -
  from assms(2,3) obtain c c' where r: "r = Inr c" "r' = Inr c'"
    and len: "\<not> length c < 1000" "\<not> length c' < 1000"
    by (cases r; cases r') (simp_all add: failed_def)
  from assms(4) obtain p where p: "get_previous_business_day date = Inr p"
    by (rule get_previous_business_day_ok)
  define w2 where "w2 = w\<lparr>requested := requested w @
      [(fund, date_to_roc_format lib date), (fund, date_to_roc_format lib p)],
      responses := rs\<rparr>"
  have "process lib date fund w =
      (case analyse lib date fund c c' of
         Inl e \<Rightarrow> (Inr None, w2\<lparr>console := console w2 @ [AnalysisFailed e]\<rparr>)
       | Inr (path, sheet) \<Rightarrow>
           (Inr (Some path), w2\<lparr>files := files w2 @ [(path, sheet)]\<rparr>))"
  proof -
    have ten: "(10::nat) = Suc 9" by simp
    have fp: "find_and_download_previous_day lib fund date w1 =
        (case download_pcf_excel fund (date_to_roc_format lib p) w1 of
           (Some excel_content, w') \<Rightarrow> (Inr (Some excel_content), w')
         | (None, w') \<Rightarrow> find_previous lib 9 fund p w')" for w1
      unfolding find_and_download_previous_day_def ten find_previous.simps p by simp
    show ?thesis
      using assms(1) r len
      by (simp add: process_def fp download_pcf_excel_def w2_def Let_def
          split: sum.splits prod.splits)
  qed
  moreover have "files w2 = files w" and "console w2 = console w"
    by (simp_all add: w2_def)
  ultimately show ?thesis using r by blast
qed

text \<open>
  Claim C9. When the request for the date itself fails (an exception, or a body under 1000
  bytes) the process exits with code 1 and writes no file. When that request succeeds and
  the ten requests that follow it all fail, the process prints the notices, writes no file
  and exits with code 0; the date is at least the ordinal 29, so that ten business days
  before it exist.
\<close>

theorem exit_codes:
  "(responses w = [] \<or> failed (hd (responses w)) \<longrightarrow>
      fst (main lib date fund w) = 1 \<and> files (snd (main lib date fund w)) = files w) \<and>
   (responses w = r # rs \<and> \<not> failed r \<and> (\<forall>x \<in> set (take 10 rs). failed x) \<and> 29 \<le> date \<longrightarrow>
      fst (main lib date fund w) = 0 \<and> files (snd (main lib date fund w)) = files w \<and>
      console (snd (main lib date fund w)) =
        console w @ [Exhausted, NoPreviousFile, NotProduced])"
  using main_current_unavailable [of w lib date fund] main_no_previous [of w r rs date lib fund]
  by blast

theorem exit_codes_witness:
  "failed (hd (responses (ex_world [Inl RequestException]))) \<and>
   fst (main ex_lib 738960 [52, 57, 89, 84, 87] (ex_world [Inl RequestException])) = 1 \<and>
   responses (ex_world (Inr (replicate 1000 0) # replicate 10 (Inl RequestException))) =
     Inr (replicate 1000 0) # replicate 10 (Inl RequestException) \<and>
   \<not> failed (Inr (replicate 1000 0)) \<and> (29::int) \<le> 738960 \<and>
   fst (main ex_lib 738960 [52, 57, 89, 84, 87]
     (ex_world (Inr (replicate 1000 0) # replicate 10 (Inl RequestException)))) = 0 \<and>
   files (snd (main ex_lib 738960 [52, 57, 89, 84, 87]
     (ex_world (Inr (replicate 1000 0) # replicate 10 (Inl RequestException))))) = [] \<and>
   console (snd (main ex_lib 738960 [52, 57, 89, 84, 87]
     (ex_world (Inr (replicate 1000 0) # replicate 10 (Inl RequestException))))) =
     [Exhausted, NoPreviousFile, NotProduced]"
proof -
  let ?w1 = "ex_world [Inl RequestException]"
  let ?rs = "replicate 10 (Inl RequestException) :: (pyerror + nat list) list"
  let ?w2 = "ex_world (Inr (replicate 1000 0) # ?rs)"
  have a: "responses ?w1 = [] \<or> failed (hd (responses ?w1))"
    and a': "failed (hd (responses ?w1))"
    by (simp_all add: ex_world_def failed_def)
  have b: "responses ?w2 = Inr (replicate 1000 0) # ?rs"
    by (simp add: ex_world_def)
  have c: "\<not> failed (Inr (replicate 1000 0))"
    by (simp add: failed_def)
  have d: "\<forall>x \<in> set (take 10 ?rs). failed x"
    by (simp add: failed_def)
  have e: "(29::int) \<le> 738960" by simp
  have f: "files ?w2 = []" "console ?w2 = []" by (simp_all add: ex_world_def)
  from exit_codes [of ?w1 ex_lib 738960 "[52, 57, 89, 84, 87]"] a
  have one: "fst (main ex_lib 738960 [52, 57, 89, 84, 87] ?w1) = 1" by blast
  from exit_codes [of ?w2 ex_lib 738960 "[52, 57, 89, 84, 87]" "Inr (replicate 1000 0)" ?rs]
    b c d e
  have two: "fst (main ex_lib 738960 [52, 57, 89, 84, 87] ?w2) = 0 \<and>
      files (snd (main ex_lib 738960 [52, 57, 89, 84, 87] ?w2)) = files ?w2 \<and>
      console (snd (main ex_lib 738960 [52, 57, 89, 84, 87] ?w2)) =
        console ?w2 @ [Exhausted, NoPreviousFile, NotProduced]"
    by blast
  from a' one b c e two show ?thesis
    unfolding f by simp
qed

end
